theory Spec2Isabelle
  imports Complex_Main "HOL-Library.Word" "HOL-Library.List_Lexorder"
begin

section \<open>Values of the source language\<close>

text \<open>
  A JavaScript string is a sequence of 16-bit code units. Numbers are modelled as
  real numbers: arithmetic is exact, rounding to IEEE doubles, NaN and the infinities
  are outside the model.
\<close>

type_synonym js_string = "16 word list"

definition of_ascii :: "string \<Rightarrow> js_string" where
  "of_ascii s = map (\<lambda>c. of_char c) s"

text \<open>
  The code units that \<open>String.prototype.trim\<close> strips: the WhiteSpace and
  LineTerminator productions of ECMAScript.
\<close>

definition isWhiteSpace :: "16 word \<Rightarrow> bool" where
  "isWhiteSpace c \<longleftrightarrow>
     c = 0x0009 \<or> c = 0x000A \<or> c = 0x000B \<or> c = 0x000C \<or> c = 0x000D \<or> c = 0x0020 \<or>
     c = 0x00A0 \<or> c = 0x1680 \<or> (0x2000 \<le> c \<and> c \<le> 0x200A) \<or> c = 0x2028 \<or>
     c = 0x2029 \<or> c = 0x202F \<or> c = 0x205F \<or> c = 0x3000 \<or> c = 0xFEFF"

definition trim :: "js_string \<Rightarrow> js_string" where
  "trim s = rev (dropWhile isWhiteSpace (rev (dropWhile isWhiteSpace s)))"

text \<open>\<open>xs.join(sep)\<close> on an array of strings.\<close>

fun join :: "js_string \<Rightarrow> js_string list \<Rightarrow> js_string" where
  "join sep [] = []"
| "join sep [x] = x"
| "join sep (x # y # ys) = x @ sep @ join sep (y # ys)"

section \<open>Segment extractor (pdfService)\<close>

text \<open>
  A text item of the PDF library: its string, the six components of its transform
  matrix, its measured width and its font name. The viewport is the page's, at scale 1.
\<close>

record matrix6 =
  m0 :: real
  m1 :: real
  m2 :: real
  m3 :: real
  m4 :: real
  m5 :: real

record text_item =
  str :: js_string
  transform :: matrix6
  item_width :: real
  item_fontName :: js_string

record viewport =
  vp_width :: real
  vp_height :: real

text \<open>
  The segment object. \<open>originalText\<close> is absent (\<open>None\<close>) on extraction and set when
  the page is translated.
\<close>

record text_segment =
  seg_text :: js_string
  originalText :: "js_string option"
  seg_width :: real
  seg_height :: real
  fontSize :: real
  xRatio :: real
  yRatio :: real
  widthRatio :: real
  heightRatio :: real
  viewportWidth :: real
  viewportHeight :: real
  fontName :: js_string

text \<open>The filter predicate: \<open>item.str && item.str.trim().length > 0\<close>.\<close>

definition nonEmptyItem :: "text_item \<Rightarrow> bool" where
  "nonEmptyItem item \<longleftrightarrow> str item \<noteq> [] \<and> length (trim (str item)) > 0"

text \<open>The object built by the \<open>map\<close> callback.\<close>

definition toSegment :: "viewport \<Rightarrow> text_item \<Rightarrow> text_segment" where
  "toSegment vp item =
     (let tx = m4 (transform item);
          ty = m5 (transform item);
          fs = sqrt (m0 (transform item) * m0 (transform item)
                     + m1 (transform item) * m1 (transform item))
      in \<lparr> seg_text = str item,
           originalText = None,
           seg_width = item_width item,
           seg_height = fs,
           fontSize = fs,
           xRatio = tx / vp_width vp,
           yRatio = (vp_height vp - ty) / vp_height vp,
           widthRatio = item_width item / vp_width vp,
           heightRatio = fs / vp_height vp,
           viewportWidth = vp_width vp,
           viewportHeight = vp_height vp,
           fontName = item_fontName item \<rparr>)"

text \<open>
  \<open>extractTextSegments\<close>, given what the PDF library returned for the page: its
  viewport and its text items.
\<close>

definition extractTextSegments :: "viewport \<Rightarrow> text_item list \<Rightarrow> text_segment list" where
  "extractTextSegments vp items = map (toSegment vp) (filter nonEmptyItem items)"

section \<open>Overlay renderer (App, lines 16-26 and 74-76)\<close>

text \<open>
  The 2D drawing context, as far as text drawing reads and writes it: the pixel size of
  \<open>ctx.font\<close> (the family is fixed) and the calls made so far. \<open>FillText t x y f\<close> is
  one call \<open>ctx.fillText(t, x, y)\<close> made while the font size was \<open>f\<close>; the call has no
  \<open>maxWidth\<close> argument and draws the whole string on one line.
\<close>

datatype draw_call = FillText js_string real real real

record canvas_ctx =
  font_px :: real
  drawn :: "draw_call list"

text \<open>
  \<open>drawAutoFitText\<close>. The browser's \<open>ctx.measureText(text).width\<close> is the parameter
  \<open>measureText\<close>, a function of the font size in effect and of the text.
\<close>

definition drawAutoFitText ::
    "(real \<Rightarrow> js_string \<Rightarrow> real) \<Rightarrow> canvas_ctx \<Rightarrow> js_string \<Rightarrow> real \<Rightarrow> real \<Rightarrow> real \<Rightarrow> real
     \<Rightarrow> canvas_ctx" where
  "drawAutoFitText measureText ctx t x y maxWidth baseFontSize =
     (let ctx1 = ctx\<lparr>font_px := baseFontSize\<rparr>;
          metrics_width = measureText (font_px ctx1) t;
          ctx2 = (if metrics_width > maxWidth \<and> maxWidth > 0
                  then (let ratio = maxWidth / metrics_width
                        in ctx1\<lparr>font_px := baseFontSize * ratio\<rparr>)
                  else ctx1)
      in ctx2\<lparr>drawn := drawn ctx2 @ [FillText t x y (font_px ctx2)]\<rparr>)"

text \<open>The callback of the second \<open>segments.forEach\<close> (line 75), and the loop.\<close>

definition drawSegmentText ::
    "(real \<Rightarrow> js_string \<Rightarrow> real) \<Rightarrow> real \<Rightarrow> real \<Rightarrow> canvas_ctx \<Rightarrow> text_segment \<Rightarrow> canvas_ctx" where
  "drawSegmentText measureText canvas_width canvas_height ctx seg =
     drawAutoFitText measureText ctx (seg_text seg)
       (xRatio seg * canvas_width) (yRatio seg * canvas_height)
       (widthRatio seg * canvas_width)
       (fontSize seg * (canvas_width / viewportWidth seg))"

definition drawSegmentTexts ::
    "(real \<Rightarrow> js_string \<Rightarrow> real) \<Rightarrow> real \<Rightarrow> real \<Rightarrow> canvas_ctx \<Rightarrow> text_segment list \<Rightarrow> canvas_ctx" where
  "drawSegmentTexts measureText canvas_width canvas_height ctx segs =
     foldl (drawSegmentText measureText canvas_width canvas_height) ctx segs"

section \<open>Pages and the selection controller (TranslatedCanvasPage)\<close>

datatype translation_mode = AI_DESIGNER | ORIGINAL_OVERLAY

record translated_page =
  pageNumber :: int
  page_originalText :: js_string
  translatedHtml :: js_string
  imageData :: "js_string option"
  segments :: "text_segment list option"
  mode :: translation_mode

datatype selection_mode = Single | Area | Points

record point =
  pt_x :: real
  pt_y :: real

text \<open>The props of the component that the handlers read, and its own state.\<close>

record canvas_props =
  page :: translated_page
  isEditMode :: bool
  selectionMode :: selection_mode
  selectedIndices :: "nat list"

record gesture =
  dragStart :: "point option"
  dragCurrent :: "point option"
  pointAnchor :: "point option"

text \<open>\<open>page.segments\<close> where the source guards it with \<open>?.\<close> and \<open>|| []\<close>.\<close>

definition pageSegments :: "translated_page \<Rightarrow> text_segment list" where
  "pageSegments pg = (case segments pg of None \<Rightarrow> [] | Some segs \<Rightarrow> segs)"

text \<open>\<open>Array.from(new Set(xs))\<close>: the first occurrence of each element, in order.\<close>

definition arrayFromSet :: "nat list \<Rightarrow> nat list" where
  "arrayFromSet xs = foldl (\<lambda>acc x. if x \<in> set acc then acc else acc @ [x]) [] xs"

text \<open>
  The \<open>reduce\<close> of lines 149-154 and, with the same text, of lines 164-169: the indices
  of the segments that pass the box test against the box spanned by two points.
\<close>

definition boxIndices :: "point \<Rightarrow> point \<Rightarrow> text_segment list \<Rightarrow> nat list" where
  "boxIndices p q segs =
     (let x1 = min (pt_x p) (pt_x q); x2 = max (pt_x p) (pt_x q);
          y1 = min (pt_y p) (pt_y q); y2 = max (pt_y p) (pt_y q)
      in foldl (\<lambda>acc (i, s).
                 let sx1 = xRatio s; sx2 = xRatio s + widthRatio s;
                     sy1 = yRatio s - heightRatio s; sy2 = yRatio s
                 in if sx1 < x2 \<and> sx2 > x1 \<and> sy1 < y2 \<and> sy2 > y1 then acc @ [i] else acc)
           [] (enumerate 0 segs))"

text \<open>
  The \<open>forEach\<close> of lines 172-176: \<open>best\<close> (\<open>None\<close> for the source's \<open>-1\<close>) and \<open>minD\<close>.
\<close>

definition anchorDistance :: "point \<Rightarrow> text_segment \<Rightarrow> real" where
  "anchorDistance e s =
     sqrt ((pt_x e - (xRatio s + widthRatio s / 2))\<^sup>2 + (pt_y e - (yRatio s - heightRatio s / 2))\<^sup>2)"

definition pickNearest :: "point \<Rightarrow> text_segment list \<Rightarrow> nat option \<times> real" where
  "pickNearest e segs =
     foldl (\<lambda>(best, minD) (i, s).
              let d = anchorDistance e s
              in if d < minD then (Some i, d) else (best, minD))
       (None, 0.05) (enumerate 0 segs)"

text \<open>
  The \<open>else\<close> branch of lines 171-181: what is reported to \<open>onSelectionChange\<close>, if
  anything.
\<close>

definition pickToggle :: "canvas_props \<Rightarrow> point \<Rightarrow> (nat list \<times> int) option" where
  "pickToggle props e =
     (case fst (pickNearest e (pageSegments (page props))) of
        None \<Rightarrow> None
      | Some best \<Rightarrow>
          Some (if best \<in> set (selectedIndices props)
                then filter (\<lambda>i. i \<noteq> best) (selectedIndices props)
                else selectedIndices props @ [best],
                pageNumber (page props)))"

definition handleMouseDown :: "canvas_props \<Rightarrow> gesture \<Rightarrow> point \<Rightarrow> gesture" where
  "handleMouseDown props g p =
     (if \<not> isEditMode props then g
      else if selectionMode props = Points then g
      else g\<lparr>dragStart := Some p\<rparr>)"

definition handleMouseMove :: "gesture \<Rightarrow> point \<Rightarrow> gesture" where
  "handleMouseMove g p = (if dragStart g \<noteq> None then g\<lparr>dragCurrent := Some p\<rparr> else g)"

text \<open>
  \<open>handleMouseUp\<close>: the new component state and the arguments of the call of
  \<open>onSelectionChange\<close>, if it is called. \<open>e\<close> is the normalised release point.
\<close>

definition handleMouseUp ::
    "canvas_props \<Rightarrow> gesture \<Rightarrow> point \<Rightarrow> gesture \<times> (nat list \<times> int) option" where
  "handleMouseUp props g e =
     (if \<not> isEditMode props then (g, None)
      else if selectionMode props = Points then
        (case pointAnchor g of
           None \<Rightarrow> (g\<lparr>pointAnchor := Some e\<rparr>, None)
         | Some a \<Rightarrow>
             (g\<lparr>pointAnchor := None\<rparr>,
              Some (arrayFromSet (selectedIndices props
                                  @ boxIndices a e (pageSegments (page props))),
                    pageNumber (page props))))
      else
        (g\<lparr>dragStart := None, dragCurrent := None\<rparr>,
         (case dragStart g of
            None \<Rightarrow> pickToggle props e
          | Some ds \<Rightarrow>
              if selectionMode props = Area \<and> \<bar>pt_x e - pt_x ds\<bar> > 0.01
              then Some (arrayFromSet (selectedIndices props
                                       @ boxIndices ds e (pageSegments (page props))),
                         pageNumber (page props))
              else pickToggle props e)))"

text \<open>
  The parent's selection state and its wiring of the component (line 766): the
  selection passed down is the parent's only for the page being edited, and the callback
  stores the reported indices and page number.
\<close>

record edit_state =
  app_isEditMode :: bool
  app_selectionMode :: selection_mode
  activeEditPageNumber :: "int option"
  app_selectedIndices :: "nat list"

definition canvasProps :: "edit_state \<Rightarrow> translated_page \<Rightarrow> canvas_props" where
  "canvasProps app pg =
     \<lparr> page = pg, isEditMode = app_isEditMode app, selectionMode = app_selectionMode app,
       selectedIndices = (if activeEditPageNumber app = Some (pageNumber pg)
                          then app_selectedIndices app else []) \<rparr>"

definition onSelectionChange :: "nat list \<Rightarrow> int \<Rightarrow> edit_state \<Rightarrow> edit_state" where
  "onSelectionChange indices pNum app =
     app\<lparr>activeEditPageNumber := Some pNum, app_selectedIndices := indices\<rparr>"

definition canvasMouseUp ::
    "edit_state \<Rightarrow> translated_page \<Rightarrow> gesture \<Rightarrow> point \<Rightarrow> edit_state \<times> gesture" where
  "canvasMouseUp app pg g e =
     (case handleMouseUp (canvasProps app pg) g e of
        (g', None) \<Rightarrow> (app, g')
      | (g', Some (indices, pNum)) \<Rightarrow> (onSelectionChange indices pNum app, g'))"

text \<open>
  The geometry the specification speaks of: a segment's bounding box, the box spanned
  by two gesture points, and the overlap test on boxes (two boxes that only share a
  border do not overlap).
\<close>

record box =
  box_left :: real
  box_right :: real
  box_top :: real
  box_bottom :: real

definition segmentBox :: "text_segment \<Rightarrow> box" where
  "segmentBox s = \<lparr> box_left = xRatio s, box_right = xRatio s + widthRatio s,
                    box_top = yRatio s - heightRatio s, box_bottom = yRatio s \<rparr>"

definition spannedBox :: "point \<Rightarrow> point \<Rightarrow> box" where
  "spannedBox p q = \<lparr> box_left = min (pt_x p) (pt_x q), box_right = max (pt_x p) (pt_x q),
                      box_top = min (pt_y p) (pt_y q), box_bottom = max (pt_y p) (pt_y q) \<rparr>"

definition overlaps :: "box \<Rightarrow> box \<Rightarrow> bool" where
  "overlaps a b \<longleftrightarrow>
     box_left a < box_right b \<and> box_left b < box_right a \<and> box_top a < box_bottom b \<and> box_top b < box_bottom a"

section \<open>Persistent store (db)\<close>

text \<open>
  An object store with an in-line key is the list of its records in ascending key
  order; \<open>key\<close> reads the key path of a record. Keys here are strings, which IndexedDB
  orders by code units. Every request is taken to succeed and a transaction to commit
  as a whole; the three operations are those of \<open>IDBObjectStore\<close>.
\<close>

fun store_put :: "('r \<Rightarrow> js_string) \<Rightarrow> 'r \<Rightarrow> 'r list \<Rightarrow> 'r list" where
  "store_put key r [] = [r]"
| "store_put key r (x # xs) =
     (if key r < key x then r # x # xs
      else if key r = key x then r # xs
      else x # store_put key r xs)"

definition store_delete :: "('r \<Rightarrow> js_string) \<Rightarrow> js_string \<Rightarrow> 'r list \<Rightarrow> 'r list" where
  "store_delete key k xs = filter (\<lambda>r. key r \<noteq> k) xs"

definition store_get :: "('r \<Rightarrow> js_string) \<Rightarrow> js_string \<Rightarrow> 'r list \<Rightarrow> 'r option" where
  "store_get key k xs = find (\<lambda>r. key r = k) xs"

datatype language = PORTUGUESE | ENGLISH | JAPANESE | CHINESE | SPANISH

text \<open>The project record, without its optional glossary.\<close>

record book_project =
  project_id :: js_string
  project_name :: js_string
  fileName :: js_string
  numPages :: int
  timestamp :: real
  inputLanguage :: language
  outputLanguage :: language

record file_record =
  file_projectId :: js_string
  file_data :: "8 word list"

text \<open>
  A record of the \<open>pages\<close> store: \<open>{ id, projectId, ...pageData }\<close>, with key path \<open>id\<close>
  and an index on \<open>projectId\<close>.
\<close>

record page_record =
  page_id :: js_string
  page_projectId :: js_string
  page_data :: translated_page

record database =
  projects :: "book_project list"
  pages :: "page_record list"
  files :: "file_record list"

text \<open>\<open>String(n)\<close> for an integer: its decimal digits, with a sign when negative.\<close>

fun digitsOf :: "nat \<Rightarrow> js_string" where
  "digitsOf n = (if n < 10 then [of_nat (48 + n)]
                 else digitsOf (n div 10) @ [of_nat (48 + n mod 10)])"

definition numberToString :: "int \<Rightarrow> js_string" where
  "numberToString n = (if n < 0 then 45 # digitsOf (nat (- n)) else digitsOf (nat n))"

definition saveFile :: "js_string \<Rightarrow> 8 word list \<Rightarrow> database \<Rightarrow> database" where
  "saveFile projectId data d =
     d\<lparr>files := store_put file_projectId \<lparr>file_projectId = projectId, file_data = data\<rparr> (files d)\<rparr>"

definition getFile :: "js_string \<Rightarrow> database \<Rightarrow> 8 word list option" where
  "getFile projectId d =
     (case store_get file_projectId projectId (files d) of
        None \<Rightarrow> None
      | Some r \<Rightarrow> Some (file_data r))"

definition saveProject :: "book_project \<Rightarrow> database \<Rightarrow> database" where
  "saveProject project d = d\<lparr>projects := store_put project_id project (projects d)\<rparr>"

definition deleteProject :: "js_string \<Rightarrow> database \<Rightarrow> database" where
  "deleteProject projectId d =
     (let keys = map page_id (filter (\<lambda>r. page_projectId r = projectId) (pages d))
      in d\<lparr>projects := store_delete project_id projectId (projects d),
           files := store_delete file_projectId projectId (files d),
           pages := foldl (\<lambda>store key. store_delete page_id key store) (pages d) keys\<rparr>)"

definition pageKey :: "js_string \<Rightarrow> int \<Rightarrow> js_string" where
  "pageKey projectId n = projectId @ of_ascii ''_'' @ numberToString n"

definition savePage :: "js_string \<Rightarrow> translated_page \<Rightarrow> database \<Rightarrow> database" where
  "savePage projectId pageData d =
     d\<lparr>pages := store_put page_id
                  \<lparr>page_id = pageKey projectId (pageNumber pageData),
                   page_projectId = projectId, page_data = pageData\<rparr>
                  (pages d)\<rparr>"

definition getProjectPages :: "js_string \<Rightarrow> database \<Rightarrow> page_record list" where
  "getProjectPages projectId d = filter (\<lambda>r. page_projectId r = projectId) (pages d)"

definition deletePagesFromProject :: "js_string \<Rightarrow> int list \<Rightarrow> database \<Rightarrow> database" where
  "deletePagesFromProject projectId pageNumbers d =
     d\<lparr>pages := foldl (\<lambda>store num. store_delete page_id (pageKey projectId num) store)
                  (pages d) pageNumbers\<rparr>"

definition getAllProjects :: "database \<Rightarrow> book_project list" where
  "getAllProjects d = projects d"

section \<open>Translation backends\<close>

text \<open>
  \<open>translateEconomic\<close> (the version with \<open>manualKey\<close>, the one the pass calls with four
  arguments). What the model's API did is a \<open>gemini_reply\<close>: the request failed with a
  message, the response carried no text, the text was not JSON (\<open>JSON.parse\<close> threw with
  a message), or it parsed, at the declared type \<open>string[]\<close>. The result is \<open>Inl\<close> of
  the message of the error thrown, or \<open>Inr\<close> of the list returned.
\<close>

datatype gemini_reply =
  RequestFails js_string | EmptyText | Unparsable js_string | Parsed "js_string list"

definition msgNoApiKey :: js_string where
  "msgNoApiKey = of_ascii ''API_KEY n'' @ [0xE3] @ of_ascii ''o configurada. Por favor, insira sua chave no bot''
     @ [0xE3] @ of_ascii ''o '' @ [0x27] @ of_ascii ''Configurar Chave'' @ [0x27]
     @ of_ascii '' no topo da p'' @ [0xE1] @ of_ascii ''gina.''"

definition msgEmptyReply :: js_string where
  "msgEmptyReply = of_ascii ''A IA retornou uma resposta vazia.''"

definition msgAiFailure :: "js_string \<Rightarrow> js_string" where
  "msgAiFailure m = of_ascii ''Falha na tradu'' @ [0xE7, 0xE3] @ of_ascii ''o IA: '' @ m
     @ of_ascii ''. Verifique se sua API Key '' @ [0xE9] @ of_ascii '' v'' @ [0xE1] @ of_ascii ''lida.''"

definition msgDefault :: js_string where
  "msgDefault = of_ascii ''Erro na tradu'' @ [0xE7, 0xE3] @ of_ascii ''o.''"

definition translateEconomic ::
    "js_string option \<Rightarrow> js_string option \<Rightarrow> gemini_reply \<Rightarrow> js_string list
     \<Rightarrow> js_string + js_string list" where
  "translateEconomic manualKey envKey reply texts =
     (let apiKey = (case manualKey of
                      None \<Rightarrow> envKey
                    | Some k \<Rightarrow> if k \<noteq> [] then Some k else envKey)
      in if apiKey = None \<or> apiKey = Some [] then Inl msgNoApiKey
         else if texts = [] then Inr []
         else (case reply of
                 RequestFails m \<Rightarrow> Inl (msgAiFailure m)
               | EmptyText \<Rightarrow> Inl (msgAiFailure msgEmptyReply)
               | Unparsable m \<Rightarrow> Inl (msgAiFailure m)
               | Parsed translated \<Rightarrow> Inr translated))"

text \<open>
  \<open>translateFree\<close>. The regular expressions of \<open>isPureCode\<close> and of the protection
  patterns are parameters: \<open>isPureCode\<close> decides whether a text is left alone, and
  \<open>protectTerms\<close> gives the processed text and the tokens put in place of technical
  terms. A token value is taken literally on restoring (no value produced by the patterns
  contains a dollar sign). What the remote call did is a \<open>free_reply\<close>: the request or the
  decoding threw, the response was not ok, it had no translation (\<open>data[0]\<close> falsy), or
  it gave the translated text, here already split at the delimiter.
\<close>

datatype free_reply = FetchFails | ResponseNotOk | NoTranslation | TranslatedParts "js_string list"

record vault_entry =
  isCode :: bool
  original :: js_string
  processed :: js_string
  tokens :: "(js_string \<times> js_string) list"

definition toVault ::
    "(js_string \<Rightarrow> bool) \<Rightarrow> (js_string \<Rightarrow> js_string \<times> (js_string \<times> js_string) list) \<Rightarrow> js_string
     \<Rightarrow> vault_entry" where
  "toVault isPureCode protectTerms t =
     (if isPureCode t then \<lparr>isCode = True, original = t, processed = t, tokens = []\<rparr>
      else \<lparr>isCode = False, original = t, processed = fst (protectTerms t),
            tokens = snd (protectTerms t)\<rparr>)"

text \<open>\<open>s.replace(new RegExp(escaped, 'g'), rep)\<close> for a literal pattern.\<close>

function replaceAll :: "js_string \<Rightarrow> js_string \<Rightarrow> js_string \<Rightarrow> js_string" where
  "replaceAll pat rep s =
     (if pat = [] then rep @ concat (map (\<lambda>c. c # rep) s)
      else if s = [] then []
      else if take (length pat) s = pat then rep @ replaceAll pat rep (drop (length pat) s)
      else hd s # replaceAll pat rep (tl s))"
  by pat_completeness auto
termination
  by (relation "measure (\<lambda>(pat, rep, s). length s)") auto

definition restoreTokens :: "(js_string \<times> js_string) list \<Rightarrow> js_string \<Rightarrow> js_string" where
  "restoreTokens tks finalStr =
     foldl (\<lambda>acc (tokenId, originalValue). replaceAll tokenId originalValue acc) finalStr tks"

definition translateFree ::
    "(js_string \<Rightarrow> bool) \<Rightarrow> (js_string \<Rightarrow> js_string \<times> (js_string \<times> js_string) list) \<Rightarrow> free_reply
     \<Rightarrow> js_string list \<Rightarrow> js_string list" where
  "translateFree isPureCode protectTerms reply texts =
     (if texts = [] then []
      else
        (let vault = map (toVault isPureCode protectTerms) texts
         in case reply of
              FetchFails \<Rightarrow> texts
            | ResponseNotOk \<Rightarrow> texts
            | NoTranslation \<Rightarrow> texts
            | TranslatedParts translatedParts \<Rightarrow>
                map (\<lambda>(i, v).
                       if isCode v then original v
                       else restoreTokens (tokens v)
                              (if i < length translatedParts \<and> translatedParts ! i \<noteq> []
                               then translatedParts ! i else original v))
                  (enumerate 0 vault)))"

section \<open>Translation pass (startTranslation)\<close>

text \<open>
  Line 410: the segments of the page entry. \<open>translatedTexts[i] || s.text\<close> takes the
  translated string when the index is in range and the string is not empty.
\<close>

definition mergeSegments :: "text_segment list \<Rightarrow> js_string list \<Rightarrow> text_segment list" where
  "mergeSegments segs translatedTexts =
     map (\<lambda>(i, s). s\<lparr>seg_text := (if i < length translatedTexts \<and> translatedTexts ! i \<noteq> []
                                   then translatedTexts ! i else seg_text s),
                      originalText := Some (seg_text s)\<rparr>)
       (enumerate 0 segs)"

definition pageEntry ::
    "int \<Rightarrow> js_string \<Rightarrow> text_segment list \<Rightarrow> js_string list \<Rightarrow> translated_page" where
  "pageEntry n imgD segs translatedTexts =
     \<lparr> pageNumber = n,
       page_originalText = join (of_ascii '' '') (map seg_text segs),
       translatedHtml = [],
       imageData = Some imgD,
       segments = Some (mergeSegments segs translatedTexts),
       mode = ORIGINAL_OVERLAY \<rparr>"

text \<open>
  What the collaborators do for one page during the pass: rendering gives the image or
  throws, the PDF library gives the viewport and the text items or throws, the two
  backends reply, and saving the page succeeds (\<open>None\<close>) or is rejected with an error.
\<close>

record page_env =
  env_image :: "js_string + js_string"
  env_content :: "js_string + viewport \<times> text_item list"
  env_gemini :: gemini_reply
  env_free :: free_reply
  env_save :: "js_string option"

record pass_config =
  useAI :: bool
  apiKeyInput :: js_string
  envApiKey :: "js_string option"
  isPureCode :: "js_string \<Rightarrow> bool"
  protectTerms :: "js_string \<Rightarrow> js_string \<times> (js_string \<times> js_string) list"

text \<open>
  The state the pass works on: the store, the messages shown with \<open>alert\<close>, and a trace
  of the calls made for each page (an event is recorded when the call is made, whether
  or not it succeeds). The in-memory page list, the progress value and the
  \<open>isProcessing\<close> flag only feed the display and are left out.
\<close>

datatype event = RenderPage int | ExtractPage int | TranslatePage int | SavePage int

fun eventPage :: "event \<Rightarrow> int" where
  "eventPage (RenderPage n) = n"
| "eventPage (ExtractPage n) = n"
| "eventPage (TranslatePage n) = n"
| "eventPage (SavePage n) = n"

record pass_state =
  db :: database
  alerts :: "js_string list"
  trace :: "event list"

definition logEvent :: "event \<Rightarrow> pass_state \<Rightarrow> pass_state" where
  "logEvent ev st = st\<lparr>trace := trace st @ [ev]\<rparr>"

text \<open>The call of line 406-408.\<close>

definition translateTexts :: "pass_config \<Rightarrow> page_env \<Rightarrow> js_string list \<Rightarrow> js_string + js_string list" where
  "translateTexts cfg pe texts =
     (if useAI cfg
      then translateEconomic (Some (apiKeyInput cfg)) (envApiKey cfg) (env_gemini pe) texts
      else Inr (translateFree (isPureCode cfg) (protectTerms cfg) (env_free pe) texts))"

text \<open>
  The body of the loop for page \<open>n\<close> of the active project \<open>pid\<close>: the state it leaves,
  and the message of the error thrown, if one was.
\<close>

definition pageStep ::
    "pass_config \<Rightarrow> js_string \<Rightarrow> (int \<Rightarrow> page_env) \<Rightarrow> int \<Rightarrow> pass_state
     \<Rightarrow> pass_state \<times> js_string option" where
  "pageStep cfg pid env n st =
     (let st1 = logEvent (RenderPage n) st in
      case env_image (env n) of
        Inl err \<Rightarrow> (st1, Some err)
      | Inr imgD \<Rightarrow>
          (let st2 = logEvent (ExtractPage n) st1 in
           case env_content (env n) of
             Inl err \<Rightarrow> (st2, Some err)
           | Inr (vp, items) \<Rightarrow>
               (let segs = extractTextSegments vp items;
                    textsToTranslate = map seg_text segs;
                    st3 = logEvent (TranslatePage n) st2 in
                case translateTexts cfg (env n) textsToTranslate of
                  Inl err \<Rightarrow> (st3, Some err)
                | Inr translatedTexts \<Rightarrow>
                    (let entry = pageEntry n imgD segs translatedTexts;
                         st4 = logEvent (SavePage n) st3 in
                     case env_save (env n) of
                       Some err \<Rightarrow> (st4, Some err)
                     | None \<Rightarrow> (st4\<lparr>db := savePage pid entry (db st4)\<rparr>, None)))))"

text \<open>
  The \<open>for\<close> loop inside \<open>try\<close>, over the page numbers still to do, and the \<open>catch\<close>:
  \<open>alert(e.message || "Erro na tradu\<dots>o.")\<close>.
\<close>

fun passLoop ::
    "pass_config \<Rightarrow> js_string \<Rightarrow> (int \<Rightarrow> page_env) \<Rightarrow> int list \<Rightarrow> pass_state \<Rightarrow> pass_state" where
  "passLoop cfg pid env [] st = st"
| "passLoop cfg pid env (n # ns) st =
     (case pageStep cfg pid env n st of
        (st', Some err) \<Rightarrow> st'\<lparr>alerts := alerts st' @ [if err \<noteq> [] then err else msgDefault]\<rparr>
      | (st', None) \<Rightarrow> passLoop cfg pid env ns st')"

text \<open>
  \<open>startTranslation\<close>. \<open>rangeStart\<close> and \<open>rangeEnd\<close> are the results of \<open>parseInt\<close> on the
  two range inputs (\<open>None\<close> for NaN, with which the loop does not run).
\<close>

record pass_request =
  pdfLoaded :: bool
  activeProjectId :: "js_string option"
  hasStoredKey :: bool
  rangeStart :: "int option"
  rangeEnd :: "int option"
  req_numPages :: int

definition startTranslation ::
    "pass_config \<Rightarrow> pass_request \<Rightarrow> (int \<Rightarrow> page_env) \<Rightarrow> pass_state \<Rightarrow> pass_state" where
  "startTranslation cfg req env st =
     (case activeProjectId req of
        None \<Rightarrow> st
      | Some pid \<Rightarrow>
          if \<not> pdfLoaded req \<or> pid = [] then st
          else if useAI cfg \<and> \<not> hasStoredKey req then st
          else (case (rangeStart req, rangeEnd req) of
                  (Some s, Some e) \<Rightarrow>
                    passLoop cfg pid env [max 1 s .. min (req_numPages req) e] st
                | _ \<Rightarrow> st))"

section \<open>Example data\<close>

text \<open>
  Concrete inputs on which the properties below are evaluated: a segment with given
  ratios, a page of given segments, component props and parent state in edit mode, a text
  item at a given origin on a 600 by 800 viewport, and a text measure of half an em per
  code unit.
\<close>

definition segmentAt :: "real \<Rightarrow> real \<Rightarrow> real \<Rightarrow> real \<Rightarrow> text_segment" where
  "segmentAt x y w h =
     \<lparr> seg_text = of_ascii ''t'', originalText = None, seg_width = 60, seg_height = 10,
       fontSize = 10, xRatio = x, yRatio = y, widthRatio = w, heightRatio = h,
       viewportWidth = 600, viewportHeight = 800, fontName = of_ascii ''f1'' \<rparr>"

definition pageWith :: "text_segment list \<Rightarrow> translated_page" where
  "pageWith segs =
     \<lparr> pageNumber = 1, page_originalText = [], translatedHtml = [], imageData = None,
       segments = Some segs, mode = ORIGINAL_OVERLAY \<rparr>"

definition propsWith :: "selection_mode \<Rightarrow> nat list \<Rightarrow> text_segment list \<Rightarrow> canvas_props" where
  "propsWith m sel segs =
     \<lparr> page = pageWith segs, isEditMode = True, selectionMode = m, selectedIndices = sel \<rparr>"

definition pointAt :: "real \<Rightarrow> real \<Rightarrow> point" where
  "pointAt x y = \<lparr> pt_x = x, pt_y = y \<rparr>"

definition idle :: gesture where
  "idle = \<lparr> dragStart = None, dragCurrent = None, pointAnchor = None \<rparr>"

definition editing :: "selection_mode \<Rightarrow> nat list \<Rightarrow> edit_state" where
  "editing m sel = \<lparr> app_isEditMode = True, app_selectionMode = m,
                     activeEditPageNumber = Some 1, app_selectedIndices = sel \<rparr>"

definition widthPerChar :: "real \<Rightarrow> js_string \<Rightarrow> real" where
  "widthPerChar f t = f * real (length t) / 2"

definition itemAt :: "string \<Rightarrow> real \<Rightarrow> real \<Rightarrow> real \<Rightarrow> text_item" where
  "itemAt t tx ty w =
     \<lparr> str = of_ascii t, transform = \<lparr>m0 = 12, m1 = 0, m2 = 0, m3 = 12, m4 = tx, m5 = ty\<rparr>,
       item_width = w, item_fontName = of_ascii ''f1'' \<rparr>"

definition letter :: viewport where
  "letter = \<lparr> vp_width = 600, vp_height = 800 \<rparr>"

definition exampleConfig :: "bool \<Rightarrow> pass_config" where
  "exampleConfig ai =
     \<lparr> useAI = ai, apiKeyInput = of_ascii ''key'', envApiKey = None,
       isPureCode = (\<lambda>t. False), protectTerms = (\<lambda>t. (t, [])) \<rparr>"

definition abcPage :: "gemini_reply \<Rightarrow> free_reply \<Rightarrow> page_env" where
  "abcPage g f =
     \<lparr> env_image = Inr (of_ascii ''img''),
       env_content = Inr (letter, [itemAt ''a'' 60 700 10, itemAt ''b'' 60 680 10,
                                   itemAt ''c'' 60 660 10]),
       env_gemini = g, env_free = f, env_save = None \<rparr>"

definition emptyState :: pass_state where
  "emptyState = \<lparr> db = \<lparr>projects = [], pages = [], files = []\<rparr>, alerts = [], trace = [] \<rparr>"

text \<open>The texts of the segments saved for a page of a project, if the page is stored.\<close>

definition savedTexts :: "js_string \<Rightarrow> int \<Rightarrow> pass_state \<Rightarrow> js_string list option" where
  "savedTexts pid n st =
     (case store_get page_id (pageKey pid n) (pages (db st)) of
        None \<Rightarrow> None
      | Some r \<Rightarrow> Some (map seg_text (pageSegments (page_data r))))"

definition exampleProject :: "string \<Rightarrow> book_project" where
  "exampleProject i =
     \<lparr> project_id = of_ascii i, project_name = of_ascii ''book'', fileName = of_ascii ''book.pdf'',
       numPages = 3, timestamp = 0, inputLanguage = ENGLISH, outputLanguage = PORTUGUESE \<rparr>"

definition exampleDatabase :: database where
  "exampleDatabase =
     savePage (of_ascii ''q'') (pageWith [segmentAt 0.2 0.3 0.1 0.05])
       (savePage (of_ascii ''p'') (pageWith [])
          (saveFile (of_ascii ''q'') [2] (saveFile (of_ascii ''p'') [1]
             (saveProject (exampleProject ''q'') (saveProject (exampleProject ''p'')
                \<lparr>projects = [], pages = [], files = []\<rparr>)))))"

definition exampleRequest :: "int \<Rightarrow> int \<Rightarrow> pass_request" where
  "exampleRequest rs re =
     \<lparr> pdfLoaded = True, activeProjectId = Some (of_ascii ''p''), hasStoredKey = True,
       rangeStart = Some rs, rangeEnd = Some re, req_numPages = 3 \<rparr>"

definition quotaEnv :: "int \<Rightarrow> page_env" where
  "quotaEnv n = (if n = 1 then abcPage (Parsed [of_ascii ''x'', of_ascii ''y'', of_ascii ''z'']) FetchFails
                 else abcPage (RequestFails (of_ascii ''quota'')) FetchFails)"

text \<open>Decimal strings are read back to the number they came from.\<close>

definition digitValue :: "js_string \<Rightarrow> nat" where
  "digitValue s = foldl (\<lambda>a c. 10 * a + (unat c - 48)) 0 s"

section \<open>Properties of the segment extractor\<close>

lemma trim_empty: "trim [] = []"
  by (simp add: trim_def)

lemma nonEmptyItem_iff: "nonEmptyItem item \<longleftrightarrow> trim (str item) \<noteq> []"
  by (auto simp: nonEmptyItem_def trim_empty)

text \<open>
  Claim C1. Extraction yields one segment per item whose trimmed string is not empty,
  in the order of the items, and the segment of such an item has
  \<open>fontSize = sqrt (a\<^sup>2 + b\<^sup>2)\<close> for the first two transform components,
  \<open>xRatio = tx / viewportWidth\<close>, \<open>yRatio = (viewportHeight - ty) / viewportHeight\<close>,
  \<open>widthRatio = width / viewportWidth\<close> and \<open>heightRatio = fontSize / viewportHeight\<close>.
\<close>

theorem extractTextSegments_spec:
  fixes vp :: viewport and items :: "text_item list"
  defines "kept \<equiv> filter (\<lambda>item. trim (str item) \<noteq> []) items"
  shows "length (extractTextSegments vp items) = length kept
       \<and> (\<forall>i < length kept.
            let s = extractTextSegments vp items ! i; item = kept ! i
            in seg_text s = str item
             \<and> fontSize s = sqrt ((m0 (transform item))\<^sup>2 + (m1 (transform item))\<^sup>2)
             \<and> xRatio s = m4 (transform item) / vp_width vp
             \<and> yRatio s = (vp_height vp - m5 (transform item)) / vp_height vp
             \<and> widthRatio s = item_width item / vp_width vp
             \<and> heightRatio s = fontSize s / vp_height vp)"
proof -
  have k: "filter nonEmptyItem items = kept"
    unfolding kept_def by (rule filter_cong) (simp_all add: nonEmptyItem_iff)
  show ?thesis
    by (simp add: extractTextSegments_def k toSegment_def Let_def power2_eq_square)
qed

theorem extractTextSegments_spec_witness:
  "(let vp = \<lparr>vp_width = 100, vp_height = 200\<rparr>;
        items = [\<lparr>str = of_ascii ''a'', transform = \<lparr>m0 = 3, m1 = 4, m2 = 0, m3 = 5, m4 = 10, m5 = 20\<rparr>,
                   item_width = 5, item_fontName = of_ascii ''f1''\<rparr>,
                 \<lparr>str = of_ascii '' '', transform = \<lparr>m0 = 1, m1 = 0, m2 = 0, m3 = 1, m4 = 0, m5 = 0\<rparr>,
                   item_width = 2, item_fontName = of_ascii ''f1''\<rparr>];
        s = extractTextSegments vp items ! 0
    in length (extractTextSegments vp items) = 1
     \<and> seg_text s = of_ascii ''a''
     \<and> fontSize s = sqrt (3\<^sup>2 + 4\<^sup>2)
     \<and> xRatio s = 1 / 10 \<and> yRatio s = 9 / 10 \<and> widthRatio s = 1 / 20
     \<and> heightRatio s = fontSize s / 200)"
  using extractTextSegments_spec
    [of "\<lparr>vp_width = 100, vp_height = 200\<rparr>"
        "[\<lparr>str = of_ascii ''a'', transform = \<lparr>m0 = 3, m1 = 4, m2 = 0, m3 = 5, m4 = 10, m5 = 20\<rparr>,
           item_width = 5, item_fontName = of_ascii ''f1''\<rparr>,
          \<lparr>str = of_ascii '' '', transform = \<lparr>m0 = 1, m1 = 0, m2 = 0, m3 = 1, m4 = 0, m5 = 0\<rparr>,
           item_width = 2, item_fontName = of_ascii ''f1''\<rparr>]"]
  by (simp add: Let_def of_ascii_def trim_def isWhiteSpace_def)

lemmas ex_defs = segmentAt_def pageWith_def propsWith_def pointAt_def idle_def editing_def

lemma sqrt_less_iff_sq: "0 \<le> c \<Longrightarrow> sqrt x < c \<longleftrightarrow> x < c\<^sup>2"
  by (metis real_sqrt_less_iff real_sqrt_abs abs_of_nonneg)

lemma less_sqrt_iff_sq: "0 \<le> c \<Longrightarrow> c < sqrt x \<longleftrightarrow> c\<^sup>2 < x"
  by (metis real_sqrt_less_iff real_sqrt_abs abs_of_nonneg)

lemma sqrt_times_less_iff_sq: "0 < k \<Longrightarrow> 0 \<le> c \<Longrightarrow> sqrt x * k < c \<longleftrightarrow> x < (c / k)\<^sup>2"
  using sqrt_less_iff_sq [of "c / k" x] by (simp add: field_simps)

lemma sqrt_le_iff_sq: "0 \<le> c \<Longrightarrow> sqrt x \<le> c \<longleftrightarrow> x \<le> c\<^sup>2"
  by (metis real_sqrt_le_iff real_sqrt_abs abs_of_nonneg)

text \<open>
  Claim C8 fails as stated: nothing clamps the ratios. An item whose origin is right of
  and below the page (\<open>tx = 900\<close> on a viewport 600 wide, \<open>ty = -40\<close>) gives
  \<open>xRatio = 3/2\<close> and \<open>yRatio = 21/20\<close>.
\<close>

theorem ratios_out_of_range_counterexample:
  "length (extractTextSegments letter [itemAt ''a'' 900 (- 40) 50]) = 1
 \<and> xRatio (extractTextSegments letter [itemAt ''a'' 900 (- 40) 50] ! 0) = 3 / 2
 \<and> \<not> xRatio (extractTextSegments letter [itemAt ''a'' 900 (- 40) 50] ! 0) \<le> 1
 \<and> yRatio (extractTextSegments letter [itemAt ''a'' 900 (- 40) 50] ! 0) = 21 / 20"
  by (simp add: extractTextSegments_def toSegment_def nonEmptyItem_def trim_def isWhiteSpace_def
        itemAt_def letter_def of_ascii_def Let_def)

text \<open>
  Claim C8, amended. On a viewport of positive width and height, when every item has
  its origin on the page (\<open>0 \<le> tx \<le> width\<close>, \<open>0 \<le> ty \<le> height\<close>), a measured width
  between 0 and the viewport width and a glyph scale \<open>sqrt (a\<^sup>2 + b\<^sup>2)\<close> of at most the
  viewport height, the four ratios of every extracted segment lie in [0,1].
\<close>

theorem ratios_in_range:
  assumes vp: "0 < vp_width vp" "0 < vp_height vp"
    and inside: "\<forall>item \<in> set items.
          0 \<le> m4 (transform item) \<and> m4 (transform item) \<le> vp_width vp
        \<and> 0 \<le> m5 (transform item) \<and> m5 (transform item) \<le> vp_height vp
        \<and> 0 \<le> item_width item \<and> item_width item \<le> vp_width vp
        \<and> sqrt ((m0 (transform item))\<^sup>2 + (m1 (transform item))\<^sup>2) \<le> vp_height vp"
  shows "\<forall>s \<in> set (extractTextSegments vp items).
           0 \<le> xRatio s \<and> xRatio s \<le> 1 \<and> 0 \<le> yRatio s \<and> yRatio s \<le> 1
         \<and> 0 \<le> widthRatio s \<and> widthRatio s \<le> 1 \<and> 0 \<le> heightRatio s \<and> heightRatio s \<le> 1"
proof
  fix s assume "s \<in> set (extractTextSegments vp items)"
  then obtain item where item: "item \<in> set items" and s: "s = toSegment vp item"
    by (auto simp: extractTextSegments_def)
  from inside item have b: "0 \<le> m4 (transform item)" "m4 (transform item) \<le> vp_width vp"
    "0 \<le> m5 (transform item)" "m5 (transform item) \<le> vp_height vp"
    "0 \<le> item_width item" "item_width item \<le> vp_width vp"
    "sqrt ((m0 (transform item))\<^sup>2 + (m1 (transform item))\<^sup>2) \<le> vp_height vp"
    by blast+
  have fs: "0 \<le> sqrt ((m0 (transform item))\<^sup>2 + (m1 (transform item))\<^sup>2)"
    by simp
  show "0 \<le> xRatio s \<and> xRatio s \<le> 1 \<and> 0 \<le> yRatio s \<and> yRatio s \<le> 1
         \<and> 0 \<le> widthRatio s \<and> widthRatio s \<le> 1 \<and> 0 \<le> heightRatio s \<and> heightRatio s \<le> 1"
    using vp b fs unfolding s toSegment_def Let_def
    by (simp add: power2_eq_square divide_le_eq_1 field_simps)
qed

theorem ratios_in_range_witness:
  "0 < vp_width letter \<and> 0 < vp_height letter
 \<and> xRatio (extractTextSegments letter [itemAt ''a'' 300 200 60] ! 0) = 1 / 2
 \<and> yRatio (extractTextSegments letter [itemAt ''a'' 300 200 60] ! 0) = 3 / 4
 \<and> widthRatio (extractTextSegments letter [itemAt ''a'' 300 200 60] ! 0) = 1 / 10
 \<and> heightRatio (extractTextSegments letter [itemAt ''a'' 300 200 60] ! 0) \<le> 1"
  using ratios_in_range [of letter "[itemAt ''a'' 300 200 60]"]
  by (simp add: extractTextSegments_def toSegment_def nonEmptyItem_def trim_def isWhiteSpace_def
        itemAt_def letter_def of_ascii_def Let_def real_sqrt_le_iff sqrt_le_iff_sq)

section \<open>Properties of the overlay renderer\<close>

lemma widthPerChar_linear:
  "\<forall>f k t. 0 < k \<longrightarrow> widthPerChar (f * k) t = widthPerChar f t * k"
  by (simp add: widthPerChar_def)

text \<open>
  Claim C2 fails as stated for a box of width 0: the guard \<open>maxWidth > 0\<close> leaves
  the font at its nominal size, and the text is wider than its box. Here the measure is
  \<open>widthPerChar\<close>, which is proportional to the font size.
\<close>

theorem autofit_overflow_counterexample:
  "widthRatio (segmentAt 0.2 0.3 0 0.05) * 1200 = 0
 \<and> widthPerChar (font_px (drawSegmentText widthPerChar 1200 1600 \<lparr>font_px = 10, drawn = []\<rparr>
                             (segmentAt 0.2 0.3 0 0.05)))
      (seg_text (segmentAt 0.2 0.3 0 0.05)) = 10
 \<and> \<not> widthPerChar (font_px (drawSegmentText widthPerChar 1200 1600 \<lparr>font_px = 10, drawn = []\<rparr>
                               (segmentAt 0.2 0.3 0 0.05)))
        (seg_text (segmentAt 0.2 0.3 0 0.05))
      \<le> widthRatio (segmentAt 0.2 0.3 0 0.05) * 1200"
  by (simp add: ex_defs drawSegmentText_def drawAutoFitText_def widthPerChar_def Let_def of_ascii_def)

text \<open>
  Claim C2, amended. The text of a segment is drawn by one \<open>fillText\<close> call with the
  whole string (no wrapping). With \<open>B = widthRatio \<times> canvasWidth\<close> the box width and
  \<open>w\<close> the width measured at the nominal size \<open>fontSize \<times> canvasWidth / viewportWidth\<close>:
  when \<open>w \<le> B\<close>, and also whenever \<open>B \<le> 0\<close>, the nominal size is used; when
  \<open>0 < B < w\<close> the size used is the nominal size times \<open>B / w\<close>; and, with a text
  measure proportional to the font size, when \<open>B\<close> is positive the width measured at
  the size used is at most \<open>B\<close>.
\<close>

theorem autofit_within_box:
  fixes measureText :: "real \<Rightarrow> js_string \<Rightarrow> real"
  defines "ctx' \<equiv> \<lambda>cw ch ctx seg. drawSegmentText measureText cw ch ctx seg"
  assumes linear: "\<forall>f k t. 0 < k \<longrightarrow> measureText (f * k) t = measureText f t * k"
  shows "drawn (ctx' cw ch ctx seg)
           = drawn ctx @ [FillText (seg_text seg) (xRatio seg * cw) (yRatio seg * ch)
                            (font_px (ctx' cw ch ctx seg))]
       \<and> (0 < widthRatio seg * cw \<longrightarrow>
            measureText (font_px (ctx' cw ch ctx seg)) (seg_text seg) \<le> widthRatio seg * cw)
       \<and> (measureText (fontSize seg * (cw / viewportWidth seg)) (seg_text seg) \<le> widthRatio seg * cw
            \<longrightarrow> font_px (ctx' cw ch ctx seg) = fontSize seg * (cw / viewportWidth seg))
       \<and> (widthRatio seg * cw \<le> 0
            \<longrightarrow> font_px (ctx' cw ch ctx seg) = fontSize seg * (cw / viewportWidth seg))
       \<and> (0 < widthRatio seg * cw
            \<and> widthRatio seg * cw < measureText (fontSize seg * (cw / viewportWidth seg)) (seg_text seg)
            \<longrightarrow> font_px (ctx' cw ch ctx seg)
                  = fontSize seg * (cw / viewportWidth seg)
                    * (widthRatio seg * cw
                       / measureText (fontSize seg * (cw / viewportWidth seg)) (seg_text seg)))"
proof -
  let ?B = "widthRatio seg * cw"
  let ?nom = "fontSize seg * (cw / viewportWidth seg)"
  let ?w = "measureText ?nom (seg_text seg)"
  have 1: "drawn (ctx' cw ch ctx seg)
           = drawn ctx @ [FillText (seg_text seg) (xRatio seg * cw) (yRatio seg * ch)
                            (font_px (ctx' cw ch ctx seg))]"
    by (simp add: ctx'_def drawSegmentText_def drawAutoFitText_def Let_def)
  have f: "font_px (ctx' cw ch ctx seg) = (if ?w > ?B \<and> ?B > 0 then ?nom * (?B / ?w) else ?nom)"
    by (simp add: ctx'_def drawSegmentText_def drawAutoFitText_def Let_def)
  have 2: "measureText (font_px (ctx' cw ch ctx seg)) (seg_text seg) \<le> ?B" if B: "0 < ?B"
  proof (cases "?w > ?B")
    case True
    with B have "0 < ?B / ?w" by simp
    with linear have "measureText (?nom * (?B / ?w)) (seg_text seg) = ?w * (?B / ?w)" by blast
    also have "\<dots> = ?B" using True B by simp
    finally show ?thesis using True B by (simp add: f)
  next
    case False
    then show ?thesis by (simp add: f)
  qed
  have 3: "font_px (ctx' cw ch ctx seg) = ?nom" if "?w \<le> ?B"
    using that by (simp add: f)
  have 4: "font_px (ctx' cw ch ctx seg) = ?nom" if "?B \<le> 0"
    using that by (simp add: f)
  have 5: "font_px (ctx' cw ch ctx seg) = ?nom * (?B / ?w)" if "0 < ?B \<and> ?B < ?w"
    using that by (simp add: f)
  from 1 2 3 4 5 show ?thesis by blast
qed

theorem autofit_within_box_witness:
  "0 < widthRatio (segmentAt 0.2 0.3 0.005 0.05) * 1200
 \<and> font_px (drawSegmentText widthPerChar 1200 1600 \<lparr>font_px = 10, drawn = []\<rparr>
              (segmentAt 0.2 0.3 0.005 0.05)) = 12
 \<and> widthPerChar 12 (seg_text (segmentAt 0.2 0.3 0.005 0.05)) = 6
 \<and> widthRatio (segmentAt 0.2 0.3 0.005 0.05) * 1200 = 6
 \<and> widthPerChar (fontSize (segmentAt 0.2 0.3 0.1 0.05) * (1200 / viewportWidth (segmentAt 0.2 0.3 0.1 0.05)))
      (seg_text (segmentAt 0.2 0.3 0.1 0.05)) = 10
 \<and> widthRatio (segmentAt 0.2 0.3 0.1 0.05) * 1200 = 120
 \<and> drawSegmentText widthPerChar 1200 1600 \<lparr>font_px = 10, drawn = []\<rparr> (segmentAt 0.2 0.3 0.1 0.05)
      = \<lparr>font_px = 20, drawn = [FillText (of_ascii ''t'') 240 480 20]\<rparr>
 \<and> widthRatio (segmentAt 0.2 0.3 (- 0.005) 0.05) * 1200 = - 6
 \<and> font_px (drawSegmentText widthPerChar 1200 1600 \<lparr>font_px = 10, drawn = []\<rparr>
              (segmentAt 0.2 0.3 (- 0.005) 0.05)) = 20"
  using autofit_within_box [OF widthPerChar_linear, of 1200 1600 "\<lparr>font_px = 10, drawn = []\<rparr>"
      "segmentAt 0.2 0.3 0.005 0.05"]
    autofit_within_box [OF widthPerChar_linear, of 1200 1600 "\<lparr>font_px = 10, drawn = []\<rparr>"
      "segmentAt 0.2 0.3 (- 0.005) 0.05"]
  by (simp add: ex_defs drawSegmentText_def drawAutoFitText_def widthPerChar_def Let_def of_ascii_def)

section \<open>Properties of the selection controller\<close>

lemma foldl_arrayFromSet:
  "set (foldl (\<lambda>acc x. if x \<in> set acc then acc else acc @ [x]) acc xs) = set acc \<union> set xs
   \<and> (distinct acc \<longrightarrow> distinct (foldl (\<lambda>acc x. if x \<in> set acc then acc else acc @ [x]) acc xs))"
  by (induction xs arbitrary: acc) auto

lemma set_arrayFromSet: "set (arrayFromSet xs) = set xs"
  using foldl_arrayFromSet [of "[]" xs] by (simp add: arrayFromSet_def)

lemma distinct_arrayFromSet: "distinct (arrayFromSet xs)"
  using foldl_arrayFromSet [of "[]" xs] by (simp add: arrayFromSet_def)

lemma foldl_push_filter:
  "foldl (\<lambda>acc (i, s). if P s then acc @ [i] else acc) acc ps
     = acc @ map fst (filter (\<lambda>(i, s). P s) ps)"
  by (induction ps arbitrary: acc) (auto split: prod.splits)

lemma set_enumerate_filter:
  "set (map fst (filter (\<lambda>(i, s). P s) (enumerate n xs)))
     = {i. n \<le> i \<and> i < n + length xs \<and> P (xs ! (i - n))}"
  by (auto simp: in_set_enumerate_eq image_iff)

lemma boxIndices_set:
  "set (boxIndices p q segs)
     = {i. i < length segs \<and> overlaps (segmentBox (segs ! i)) (spannedBox p q)}"
proof -
  let ?P = "\<lambda>s. overlaps (segmentBox s) (spannedBox p q)"
  have "boxIndices p q segs = [] @ map fst (filter (\<lambda>(i, s). ?P s) (enumerate 0 segs))"
    unfolding boxIndices_def Let_def
    by (subst foldl_push_filter [symmetric])
       (simp add: overlaps_def segmentBox_def spannedBox_def conj_ac)
  then show ?thesis
    using set_enumerate_filter [of ?P 0 segs] by simp
qed

lemma pick_step_none:
  "(\<forall>s \<in> set xs. \<not> d s < m) \<Longrightarrow>
   foldl (\<lambda>(best, minD) (i, s). let v = d s in if v < minD then (Some i, v) else (best, minD))
     (b, m) (enumerate n xs) = (b, m)"
  by (induction xs arbitrary: n) (auto simp: Let_def)

lemma pick_step_some:
  fixes d :: "'a \<Rightarrow> real"
  shows "\<exists>s \<in> set xs. d s < m \<Longrightarrow>
   \<exists>k < length xs.
     foldl (\<lambda>(best, minD) (i, s). let v = d s in if v < minD then (Some i, v) else (best, minD))
       (b, m) (enumerate n xs) = (Some (n + k), d (xs ! k))
     \<and> d (xs ! k) < m \<and> (\<forall>j < length xs. d (xs ! k) \<le> d (xs ! j))"
proof (induction xs arbitrary: b m n)
  case Nil
  then show ?case by simp
next
  case (Cons x xs)
  let ?F = "\<lambda>(best, minD) (i, s). let v = d s in if v < minD then (Some i, v) else (best, minD)"
  show ?case
  proof (cases "d x < m")
    case True
    show ?thesis
    proof (cases "\<exists>s \<in> set xs. d s < d x")
      case True
      from Cons.IH [OF True, of "Some n" "Suc n"]
      obtain k where k: "k < length xs"
        "foldl ?F (Some n, d x) (enumerate (Suc n) xs) = (Some (Suc n + k), d (xs ! k))"
        "d (xs ! k) < d x" "\<forall>j < length xs. d (xs ! k) \<le> d (xs ! j)"
        by blast
      have "\<forall>j < length (x # xs). d ((x # xs) ! Suc k) \<le> d ((x # xs) ! j)"
        using k(3,4) by (auto simp: nth_Cons split: nat.splits)
      with k \<open>d x < m\<close> show ?thesis
        by (intro exI [of _ "Suc k"]) (simp add: Let_def)
    next
      case False
      then have none: "\<forall>s \<in> set xs. \<not> d s < d x" by blast
      have "\<forall>j < length (x # xs). d ((x # xs) ! 0) \<le> d ((x # xs) ! j)"
        using none by (auto simp: nth_Cons split: nat.splits simp: not_less)
      with pick_step_none [OF none, of "Some n" "Suc n"] \<open>d x < m\<close> show ?thesis
        by (intro exI [of _ 0]) (simp add: Let_def)
    qed
  next
    case False
    with Cons.prems have ex: "\<exists>s \<in> set xs. d s < m" by auto
    from Cons.IH [OF ex, of b "Suc n"]
    obtain k where k: "k < length xs"
      "foldl ?F (b, m) (enumerate (Suc n) xs) = (Some (Suc n + k), d (xs ! k))"
      "d (xs ! k) < m" "\<forall>j < length xs. d (xs ! k) \<le> d (xs ! j)"
      by blast
    have "\<forall>j < length (x # xs). d ((x # xs) ! Suc k) \<le> d ((x # xs) ! j)"
      using k(3,4) False by (auto simp: nth_Cons split: nat.splits)
    with k False show ?thesis
      by (intro exI [of _ "Suc k"]) (simp add: Let_def)
  qed
qed

lemma pickNearest_none:
  assumes "\<forall>i < length segs. \<not> anchorDistance e (segs ! i) < 0.05"
  shows "fst (pickNearest e segs) = None"
proof -
  have "\<forall>s \<in> set segs. \<not> anchorDistance e s < 0.05"
    using assms by (metis in_set_conv_nth)
  from pick_step_none [OF this, of None 0] show ?thesis
    unfolding pickNearest_def by (simp only: fst_conv)
qed

lemma pickNearest_some:
  assumes "\<exists>i < length segs. anchorDistance e (segs ! i) < 0.05"
  shows "\<exists>k < length segs. fst (pickNearest e segs) = Some k
      \<and> anchorDistance e (segs ! k) < 0.05
      \<and> (\<forall>j < length segs. anchorDistance e (segs ! k) \<le> anchorDistance e (segs ! j))"
proof -
  from assms have "\<exists>s \<in> set segs. anchorDistance e s < 0.05"
    by (metis nth_mem)
  from pick_step_some [OF this, of None 0]
  obtain k where "k < length segs"
    "foldl (\<lambda>(best, minD) (i, s). let v = anchorDistance e s in if v < minD then (Some i, v) else (best, minD))
       (None, 0.05) (enumerate 0 segs) = (Some (0 + k), anchorDistance e (segs ! k))"
    "anchorDistance e (segs ! k) < 0.05"
    "\<forall>j < length segs. anchorDistance e (segs ! k) \<le> anchorDistance e (segs ! j)"
    by blast
  then show ?thesis
    unfolding pickNearest_def by (intro exI [of _ k]) (simp only: fst_conv add_0 simp_thms)
qed

lemma single_up:
  assumes "isEditMode props" "selectionMode props = Single"
  shows "snd (handleMouseUp props g e) = pickToggle props e"
  using assms unfolding handleMouseUp_def by (auto split: option.splits)

lemma canvasMouseUp_single:
  assumes "app_isEditMode app" "app_selectionMode app = Single"
  shows "fst (canvasMouseUp app pg g e)
     = (case pickToggle (canvasProps app pg) e of None \<Rightarrow> app
        | Some (indices, pNum) \<Rightarrow> onSelectionChange indices pNum app)"
proof -
  have "snd (handleMouseUp (canvasProps app pg) g e) = pickToggle (canvasProps app pg) e"
    using assms by (intro single_up) (simp_all add: canvasProps_def)
  then show ?thesis
    unfolding canvasMouseUp_def by (auto split: prod.splits option.splits)
qed

text \<open>
  Claim C3 fails as stated in area mode: a drag whose horizontal displacement is at
  most 0.01 is not a box selection. With segment 0 selected, the drag from (0.495, 0.1)
  to (0.5, 0.45) spans a box that overlaps the segment's box, so the union is {0}; the
  handler instead toggles the segment nearest to the release point and reports the empty
  selection.
\<close>

theorem box_selection_union_counterexample:
  "isEditMode (propsWith Area [0] [segmentAt 0.4 0.5 0.2 0.1])
 \<and> selectionMode (propsWith Area [0] [segmentAt 0.4 0.5 0.2 0.1]) = Area
 \<and> overlaps (segmentBox (segmentAt 0.4 0.5 0.2 0.1)) (spannedBox (pointAt 0.495 0.1) (pointAt 0.5 0.45))
 \<and> snd (handleMouseUp (propsWith Area [0] [segmentAt 0.4 0.5 0.2 0.1])
          (handleMouseDown (propsWith Area [0] [segmentAt 0.4 0.5 0.2 0.1]) idle (pointAt 0.495 0.1))
          (pointAt 0.5 0.45)) = Some ([], 1)
 \<and> set [] \<noteq> set (selectedIndices (propsWith Area [0] [segmentAt 0.4 0.5 0.2 0.1])) \<union> {0::nat}"
  by (simp add: ex_defs handleMouseUp_def handleMouseDown_def pickToggle_def pickNearest_def
        anchorDistance_def overlaps_def segmentBox_def spannedBox_def pageSegments_def Let_def
        sqrt_less_iff_sq sqrt_times_less_iff_sq power2_eq_square)

text \<open>
  Claim C3, amended. In points mode (second pointer-up, anchor \<open>a\<close>) and in area mode
  when the horizontal displacement between the drag start \<open>a\<close> and the release point
  exceeds 0.01, the selection reported is duplicate-free and is the union of the previous
  selection with exactly the indices of the segments whose bounding box overlaps the box
  spanned by \<open>a\<close> and the release point. The box of a segment with ratios
  (0.2, 0.3, 0.1, 0.05) overlaps the box (0.15,0.2)-(0.35,0.3) and does not overlap the box
  (0.5,0.5)-(0.6,0.6).
\<close>

theorem box_selection_union:
  assumes edit: "isEditMode props"
    and gest: "(selectionMode props = Points \<and> pointAnchor g = Some a)
             \<or> (selectionMode props = Area \<and> dragStart g = Some a \<and> \<bar>pt_x e - pt_x a\<bar> > 0.01)"
  shows "(\<exists>sel'. snd (handleMouseUp props g e) = Some (sel', pageNumber (page props))
           \<and> distinct sel'
           \<and> set sel' = set (selectedIndices props)
                \<union> {i. i < length (pageSegments (page props))
                       \<and> overlaps (segmentBox (pageSegments (page props) ! i)) (spannedBox a e)})
       \<and> overlaps (segmentBox (segmentAt 0.2 0.3 0.1 0.05)) (spannedBox (pointAt 0.15 0.2) (pointAt 0.35 0.3))
       \<and> \<not> overlaps (segmentBox (segmentAt 0.2 0.3 0.1 0.05)) (spannedBox (pointAt 0.5 0.5) (pointAt 0.6 0.6))"
proof -
  let ?sel = "arrayFromSet (selectedIndices props @ boxIndices a e (pageSegments (page props)))"
  have "snd (handleMouseUp props g e) = Some (?sel, pageNumber (page props))"
    using edit gest unfolding handleMouseUp_def by auto
  moreover have "distinct ?sel" by (rule distinct_arrayFromSet)
  moreover have "set ?sel = set (selectedIndices props)
                \<union> {i. i < length (pageSegments (page props))
                       \<and> overlaps (segmentBox (pageSegments (page props) ! i)) (spannedBox a e)}"
    by (simp only: set_arrayFromSet set_append boxIndices_set)
  ultimately have "\<exists>sel'. snd (handleMouseUp props g e) = Some (sel', pageNumber (page props))
           \<and> distinct sel'
           \<and> set sel' = set (selectedIndices props)
                \<union> {i. i < length (pageSegments (page props))
                       \<and> overlaps (segmentBox (pageSegments (page props) ! i)) (spannedBox a e)}"
    by blast
  moreover have "overlaps (segmentBox (segmentAt 0.2 0.3 0.1 0.05))
                   (spannedBox (pointAt 0.15 0.2) (pointAt 0.35 0.3))"
    by (simp add: overlaps_def segmentBox_def spannedBox_def segmentAt_def pointAt_def)
  moreover have "\<not> overlaps (segmentBox (segmentAt 0.2 0.3 0.1 0.05))
                   (spannedBox (pointAt 0.5 0.5) (pointAt 0.6 0.6))"
    by (simp add: overlaps_def segmentBox_def spannedBox_def segmentAt_def pointAt_def)
  ultimately show ?thesis by (intro conjI)
qed

theorem box_selection_union_witness:
  "snd (handleMouseUp (propsWith Points [] [segmentAt 0.2 0.3 0.1 0.05])
          (idle\<lparr>pointAnchor := Some (pointAt 0.15 0.2)\<rparr>) (pointAt 0.35 0.3)) = Some ([0], 1)
 \<and> snd (handleMouseUp (propsWith Points [] [segmentAt 0.2 0.3 0.1 0.05])
          (idle\<lparr>pointAnchor := Some (pointAt 0.5 0.5)\<rparr>) (pointAt 0.6 0.6)) = Some ([], 1)
 \<and> snd (handleMouseUp (propsWith Area [0, 2] [segmentAt 0.2 0.3 0.1 0.05, segmentAt 0.2 0.5 0.1 0.05])
          (idle\<lparr>dragStart := Some (pointAt 0.35 0.3)\<rparr>) (pointAt 0.15 0.2)) = Some ([0, 2], 1)"
  using box_selection_union
    [of "propsWith Points [] [segmentAt 0.2 0.3 0.1 0.05]"
        "idle\<lparr>pointAnchor := Some (pointAt 0.15 0.2)\<rparr>" "pointAt 0.15 0.2" "pointAt 0.35 0.3"]
  by (simp add: ex_defs handleMouseUp_def arrayFromSet_def boxIndices_def pageSegments_def Let_def)

text \<open>
  Claim C4. In single mode a pointer-up with no segment anchor nearer than 0.05 leaves
  the selection as it is; otherwise it toggles the membership of a nearest segment
  \<open>b\<close>, whose anchor is nearer than 0.05, and a second pointer-up at the same point
  gives back the initial selection (as a set, and as the same list when \<open>b\<close> was not
  selected).
\<close>

theorem single_pick_toggle:
  fixes app :: edit_state and pg :: translated_page and g :: gesture and e :: point
  defines "segs \<equiv> pageSegments pg"
    and "sel \<equiv> selectedIndices (canvasProps app pg)"
    and "app1 \<equiv> fst (canvasMouseUp app pg g e)"
  defines "app2 \<equiv> fst (canvasMouseUp app1 pg (snd (canvasMouseUp app pg g e)) e)"
  assumes edit: "app_isEditMode app" and single: "app_selectionMode app = Single"
  shows "((\<forall>i < length segs. \<not> anchorDistance e (segs ! i) < 0.05) \<longrightarrow> app1 = app)
       \<and> ((\<exists>i < length segs. anchorDistance e (segs ! i) < 0.05) \<longrightarrow>
            (\<exists>b < length segs.
                anchorDistance e (segs ! b) < 0.05
              \<and> (\<forall>j < length segs. anchorDistance e (segs ! b) \<le> anchorDistance e (segs ! j))
              \<and> set (selectedIndices (canvasProps app1 pg))
                   = (if b \<in> set sel then set sel - {b} else insert b (set sel))
              \<and> set (selectedIndices (canvasProps app2 pg)) = set sel
              \<and> (b \<notin> set sel \<longrightarrow> selectedIndices (canvasProps app2 pg) = sel)))"
proof (intro conjI impI)
  assume "\<forall>i < length segs. \<not> anchorDistance e (segs ! i) < 0.05"
  then have "fst (pickNearest e (pageSegments (page (canvasProps app pg)))) = None"
    unfolding segs_def by (intro pickNearest_none) (simp add: canvasProps_def)
  then show "app1 = app"
    unfolding app1_def canvasMouseUp_single [OF edit single] pickToggle_def by simp
next
  assume "\<exists>i < length segs. anchorDistance e (segs ! i) < 0.05"
  from pickNearest_some [OF this [unfolded segs_def]]
  obtain b where b: "b < length segs" "fst (pickNearest e (pageSegments pg)) = Some b"
    "anchorDistance e (segs ! b) < 0.05"
    "\<forall>j < length segs. anchorDistance e (segs ! b) \<le> anchorDistance e (segs ! j)"
    unfolding segs_def by blast
  let ?next = "if b \<in> set sel then filter (\<lambda>i. i \<noteq> b) sel else sel @ [b]"
  have pg1: "page (canvasProps a pg) = pg" for a
    by (simp add: canvasProps_def)
  have a1: "app1 = onSelectionChange ?next (pageNumber pg) app"
    unfolding app1_def canvasMouseUp_single [OF edit single] pickToggle_def pg1 b(2) sel_def
    by simp
  have e1: "app_isEditMode app1" "app_selectionMode app1 = Single"
    using edit single by (simp_all add: a1 onSelectionChange_def)
  have s1: "selectedIndices (canvasProps app1 pg) = ?next"
    by (simp add: a1 onSelectionChange_def canvasProps_def)
  let ?next2 = "if b \<in> set ?next then filter (\<lambda>i. i \<noteq> b) ?next else ?next @ [b]"
  have a2: "app2 = onSelectionChange ?next2 (pageNumber pg) app1"
    unfolding app2_def app1_def [symmetric]
    unfolding canvasMouseUp_single [OF e1] pickToggle_def pg1 b(2) s1
    by simp
  have s2: "selectedIndices (canvasProps app2 pg) = ?next2"
    by (simp add: a2 onSelectionChange_def canvasProps_def)
  have "set ?next = (if b \<in> set sel then set sel - {b} else insert b (set sel))"
    by auto
  moreover have "set ?next2 = set sel" by auto
  moreover have "b \<notin> set sel \<longrightarrow> ?next2 = sel"
    by (auto simp: filter_id_conv)
  ultimately show "\<exists>b < length segs.
                anchorDistance e (segs ! b) < 0.05
              \<and> (\<forall>j < length segs. anchorDistance e (segs ! b) \<le> anchorDistance e (segs ! j))
              \<and> set (selectedIndices (canvasProps app1 pg))
                   = (if b \<in> set sel then set sel - {b} else insert b (set sel))
              \<and> set (selectedIndices (canvasProps app2 pg)) = set sel
              \<and> (b \<notin> set sel \<longrightarrow> selectedIndices (canvasProps app2 pg) = sel)"
    using b(1,3,4) unfolding s1 s2 by (intro exI [of _ b]) (simp only: simp_thms)
qed

theorem single_pick_toggle_witness:
  "app_isEditMode (editing Single [1]) \<and> app_selectionMode (editing Single [1]) = Single
 \<and> anchorDistance (pointAt 0.25 0.275) (segmentAt 0.2 0.3 0.1 0.05) < 0.05
 \<and> selectedIndices (canvasProps
       (fst (canvasMouseUp (editing Single [1]) (pageWith [segmentAt 0.2 0.3 0.1 0.05, segmentAt 0.6 0.7 0.1 0.05]) idle
               (pointAt 0.25 0.275)))
       (pageWith [segmentAt 0.2 0.3 0.1 0.05, segmentAt 0.6 0.7 0.1 0.05])) = [1, 0]
 \<and> selectedIndices (canvasProps
       (fst (canvasMouseUp
               (fst (canvasMouseUp (editing Single [1]) (pageWith [segmentAt 0.2 0.3 0.1 0.05, segmentAt 0.6 0.7 0.1 0.05]) idle
                       (pointAt 0.25 0.275)))
               (pageWith [segmentAt 0.2 0.3 0.1 0.05, segmentAt 0.6 0.7 0.1 0.05])
               (snd (canvasMouseUp (editing Single [1]) (pageWith [segmentAt 0.2 0.3 0.1 0.05, segmentAt 0.6 0.7 0.1 0.05]) idle
                       (pointAt 0.25 0.275)))
               (pointAt 0.25 0.275)))
       (pageWith [segmentAt 0.2 0.3 0.1 0.05, segmentAt 0.6 0.7 0.1 0.05])) = [1]
 \<and> fst (canvasMouseUp (editing Single [1]) (pageWith [segmentAt 0.2 0.3 0.1 0.05, segmentAt 0.6 0.7 0.1 0.05]) idle
          (pointAt 0.9 0.275)) = editing Single [1]"
proof -
  have edit: "app_isEditMode (editing Single [1])" "app_selectionMode (editing Single [1]) = Single"
    by (simp_all add: editing_def)
  note toggled = single_pick_toggle [OF edit,
      of "pageWith [segmentAt 0.2 0.3 0.1 0.05, segmentAt 0.6 0.7 0.1 0.05]" "pointAt 0.25 0.275" idle]
  have "anchorDistance (pointAt 0.25 0.275) (segmentAt 0.2 0.3 0.1 0.05) < 0.05"
    by (simp add: ex_defs anchorDistance_def)
  then have "\<exists>i < length (pageSegments (pageWith [segmentAt 0.2 0.3 0.1 0.05, segmentAt 0.6 0.7 0.1 0.05])).
      anchorDistance (pointAt 0.25 0.275)
        (pageSegments (pageWith [segmentAt 0.2 0.3 0.1 0.05, segmentAt 0.6 0.7 0.1 0.05]) ! i) < 0.05"
    by (intro exI [of _ 0]) (simp add: pageSegments_def pageWith_def)
  with toggled have "\<exists>b. set (selectedIndices (canvasProps
       (fst (canvasMouseUp (editing Single [1])
               (pageWith [segmentAt 0.2 0.3 0.1 0.05, segmentAt 0.6 0.7 0.1 0.05]) idle
               (pointAt 0.25 0.275)))
       (pageWith [segmentAt 0.2 0.3 0.1 0.05, segmentAt 0.6 0.7 0.1 0.05])))
      = (if b \<in> set (selectedIndices (canvasProps (editing Single [1])
                 (pageWith [segmentAt 0.2 0.3 0.1 0.05, segmentAt 0.6 0.7 0.1 0.05])))
         then set (selectedIndices (canvasProps (editing Single [1])
                 (pageWith [segmentAt 0.2 0.3 0.1 0.05, segmentAt 0.6 0.7 0.1 0.05]))) - {b}
         else insert b (set (selectedIndices (canvasProps (editing Single [1])
                 (pageWith [segmentAt 0.2 0.3 0.1 0.05, segmentAt 0.6 0.7 0.1 0.05])))))"
    by blast
  moreover have "app_isEditMode (editing Single [1]) \<and> app_selectionMode (editing Single [1]) = Single
 \<and> anchorDistance (pointAt 0.25 0.275) (segmentAt 0.2 0.3 0.1 0.05) < 0.05
 \<and> selectedIndices (canvasProps
       (fst (canvasMouseUp (editing Single [1]) (pageWith [segmentAt 0.2 0.3 0.1 0.05, segmentAt 0.6 0.7 0.1 0.05]) idle
               (pointAt 0.25 0.275)))
       (pageWith [segmentAt 0.2 0.3 0.1 0.05, segmentAt 0.6 0.7 0.1 0.05])) = [1, 0]
 \<and> selectedIndices (canvasProps
       (fst (canvasMouseUp
               (fst (canvasMouseUp (editing Single [1]) (pageWith [segmentAt 0.2 0.3 0.1 0.05, segmentAt 0.6 0.7 0.1 0.05]) idle
                       (pointAt 0.25 0.275)))
               (pageWith [segmentAt 0.2 0.3 0.1 0.05, segmentAt 0.6 0.7 0.1 0.05])
               (snd (canvasMouseUp (editing Single [1]) (pageWith [segmentAt 0.2 0.3 0.1 0.05, segmentAt 0.6 0.7 0.1 0.05]) idle
                       (pointAt 0.25 0.275)))
               (pointAt 0.25 0.275)))
       (pageWith [segmentAt 0.2 0.3 0.1 0.05, segmentAt 0.6 0.7 0.1 0.05])) = [1]
 \<and> fst (canvasMouseUp (editing Single [1]) (pageWith [segmentAt 0.2 0.3 0.1 0.05, segmentAt 0.6 0.7 0.1 0.05]) idle
          (pointAt 0.9 0.275)) = editing Single [1]"
    by (simp add: ex_defs canvasMouseUp_def handleMouseUp_def pickToggle_def
        pickNearest_def anchorDistance_def canvasProps_def onSelectionChange_def
        pageSegments_def Let_def sqrt_less_iff_sq sqrt_times_less_iff_sq power2_eq_square)
  ultimately show ?thesis by - assumption
qed

text \<open>
  Claim C7 fails as stated: the dead-zone test reads the horizontal displacement only.
  A vertical drag of length 0.8 across a segment is not treated as a box selection: the
  box selection would report the segment, and the handler, picking the nearest anchor
  to the release point, reports nothing.
\<close>

theorem area_dead_zone_counterexample:
  "isEditMode (propsWith Area [] [segmentAt 0.4 0.5 0.2 0.1])
 \<and> selectionMode (propsWith Area [] [segmentAt 0.4 0.5 0.2 0.1]) = Area
 \<and> dragStart (idle\<lparr>dragStart := Some (pointAt 0.5 0.1)\<rparr>) = Some (pointAt 0.5 0.1)
 \<and> sqrt ((pt_x (pointAt 0.5 0.9) - pt_x (pointAt 0.5 0.1))\<^sup>2
         + (pt_y (pointAt 0.5 0.9) - pt_y (pointAt 0.5 0.1))\<^sup>2) > 0.01
 \<and> arrayFromSet ([] @ boxIndices (pointAt 0.5 0.1) (pointAt 0.5 0.9) [segmentAt 0.4 0.5 0.2 0.1]) = [0]
 \<and> snd (handleMouseUp (propsWith Area [] [segmentAt 0.4 0.5 0.2 0.1])
          (idle\<lparr>dragStart := Some (pointAt 0.5 0.1)\<rparr>) (pointAt 0.5 0.9)) = None"
  by (simp add: ex_defs handleMouseUp_def pickToggle_def pickNearest_def anchorDistance_def
        arrayFromSet_def boxIndices_def pageSegments_def Let_def sqrt_less_iff_sq less_sqrt_iff_sq)

text \<open>
  Claim C7, amended. In area mode, with a drag start recorded, pointer-up reports the box
  selection exactly when the horizontal displacement \<open>|end.x - start.x|\<close> exceeds 0.01;
  otherwise it reports what single mode reports for the same release point.
\<close>

theorem area_dead_zone:
  assumes "isEditMode props" and "selectionMode props = Area" and "dragStart g = Some ds"
  shows "(\<bar>pt_x e - pt_x ds\<bar> > 0.01 \<longrightarrow>
            snd (handleMouseUp props g e)
              = Some (arrayFromSet (selectedIndices props
                                    @ boxIndices ds e (pageSegments (page props))),
                      pageNumber (page props)))
       \<and> (\<not> \<bar>pt_x e - pt_x ds\<bar> > 0.01 \<longrightarrow>
            snd (handleMouseUp props g e)
              = snd (handleMouseUp (props\<lparr>selectionMode := Single\<rparr>) g e))"
  using assms unfolding handleMouseUp_def pickToggle_def by (auto split: option.splits)

theorem area_dead_zone_witness:
  "isEditMode (propsWith Area [] [segmentAt 0.4 0.5 0.2 0.1])
 \<and> selectionMode (propsWith Area [] [segmentAt 0.4 0.5 0.2 0.1]) = Area
 \<and> snd (handleMouseUp (propsWith Area [] [segmentAt 0.4 0.5 0.2 0.1])
          (idle\<lparr>dragStart := Some (pointAt 0.3 0.1)\<rparr>) (pointAt 0.5 0.9)) = Some ([0], 1)
 \<and> snd (handleMouseUp (propsWith Area [] [segmentAt 0.4 0.5 0.2 0.1])
          (idle\<lparr>dragStart := Some (pointAt 0.495 0.44)\<rparr>) (pointAt 0.5 0.45)) = Some ([0], 1)
 \<and> snd (handleMouseUp (propsWith Single [] [segmentAt 0.4 0.5 0.2 0.1])
          (idle\<lparr>dragStart := Some (pointAt 0.495 0.44)\<rparr>) (pointAt 0.5 0.45)) = Some ([0], 1)"
  using area_dead_zone
    [of "propsWith Area [] [segmentAt 0.4 0.5 0.2 0.1]" "idle\<lparr>dragStart := Some (pointAt 0.3 0.1)\<rparr>"
        "pointAt 0.3 0.1" "pointAt 0.5 0.9"]
  by (simp add: ex_defs handleMouseUp_def pickToggle_def pickNearest_def anchorDistance_def
        arrayFromSet_def boxIndices_def pageSegments_def Let_def sqrt_less_iff_sq less_sqrt_iff_sq)

section \<open>Properties of the persistent store\<close>

lemma store_get_delete: "store_get key k (store_delete key k xs) = None"
  by (simp add: store_get_def store_delete_def find_None_iff)

lemma foldl_store_delete:
  "foldl (\<lambda>store k. store_delete key k store) xs ks = filter (\<lambda>r. key r \<notin> set ks) xs"
proof (induction ks arbitrary: xs)
  case Nil
  then show ?case by simp
next
  case (Cons k ks)
  have "foldl (\<lambda>store k. store_delete key k store) xs (k # ks)
          = filter (\<lambda>r. key r \<notin> set ks) (store_delete key k xs)"
    by (simp add: Cons.IH)
  also have "\<dots> = filter (\<lambda>r. key r \<notin> set (k # ks)) xs"
    by (auto simp: store_delete_def intro: filter_cong)
  finally show ?case by simp
qed

lemma deleteProject_pages:
  "pages (deleteProject pid d)
     = filter (\<lambda>r. page_id r \<notin> page_id ` {r \<in> set (pages d). page_projectId r = pid}) (pages d)"
  by (simp add: deleteProject_def Let_def foldl_store_delete)

text \<open>
  Claim C9. After \<open>deleteProject\<close> the project's record, its file and every page with
  its \<open>projectId\<close> are gone from the stores: the project is not among
  \<open>getAllProjects\<close>, \<open>getFile\<close> gives null and \<open>getProjectPages\<close> gives the empty list.
\<close>

theorem deleteProject_cascade:
  fixes pid :: js_string and d :: database
  defines "d' \<equiv> deleteProject pid d"
  shows "store_get project_id pid (projects d') = None
       \<and> store_get file_projectId pid (files d') = None
       \<and> (\<forall>r \<in> set (pages d'). page_projectId r \<noteq> pid)
       \<and> (\<forall>p \<in> set (getAllProjects d'). project_id p \<noteq> pid)
       \<and> getFile pid d' = None
       \<and> getProjectPages pid d' = []"
proof -
  have 1: "store_get project_id pid (projects d') = None"
    by (simp add: d'_def deleteProject_def Let_def store_get_delete)
  have 2: "store_get file_projectId pid (files d') = None"
    by (simp add: d'_def deleteProject_def Let_def store_get_delete)
  have 3: "\<forall>r \<in> set (pages d'). page_projectId r \<noteq> pid"
    unfolding d'_def deleteProject_pages by auto
  have 4: "\<forall>p \<in> set (getAllProjects d'). project_id p \<noteq> pid"
    by (simp add: d'_def getAllProjects_def deleteProject_def Let_def store_delete_def)
  have 5: "getFile pid d' = None"
    by (simp add: getFile_def 2)
  have 6: "getProjectPages pid d' = []"
    using 3 by (simp add: getProjectPages_def filter_empty_conv)
  from 1 2 3 4 5 6 show ?thesis by blast
qed

lemmas db_defs = exampleDatabase_def exampleProject_def savePage_def saveFile_def saveProject_def
  deleteProject_def getFile_def getProjectPages_def getAllProjects_def store_get_def
  store_delete_def pageKey_def numberToString_def pageWith_def segmentAt_def of_ascii_def Let_def

theorem deleteProject_cascade_witness:
  "map project_id (getAllProjects exampleDatabase) = [of_ascii ''p'', of_ascii ''q'']
 \<and> getFile (of_ascii ''p'') exampleDatabase = Some [1]
 \<and> map page_id (getProjectPages (of_ascii ''p'') exampleDatabase) = [of_ascii ''p_1'']
 \<and> map project_id (getAllProjects (deleteProject (of_ascii ''p'') exampleDatabase)) = [of_ascii ''q'']
 \<and> getFile (of_ascii ''p'') (deleteProject (of_ascii ''p'') exampleDatabase) = None
 \<and> getProjectPages (of_ascii ''p'') (deleteProject (of_ascii ''p'') exampleDatabase) = []
 \<and> getFile (of_ascii ''q'') (deleteProject (of_ascii ''p'') exampleDatabase) = Some [2]
 \<and> map page_id (getProjectPages (of_ascii ''q'') (deleteProject (of_ascii ''p'') exampleDatabase))
      = [of_ascii ''q_1'']"
  using deleteProject_cascade [of "of_ascii ''p''" exampleDatabase]
  by (simp add: db_defs)

lemma length_mergeSegments: "length (mergeSegments segs resp) = length segs"
  by (simp add: mergeSegments_def)

lemma nth_mergeSegments:
  "i < length segs \<Longrightarrow>
   mergeSegments segs resp ! i
     = (segs ! i)\<lparr>seg_text := (if i < length resp \<and> resp ! i \<noteq> [] then resp ! i
                                 else seg_text (segs ! i)),
                  originalText := Some (seg_text (segs ! i))\<rparr>"
  by (simp add: mergeSegments_def nth_enumerate_eq)

lemma store_get_put: "store_get key (key r) (store_put key r xs) = Some r"
  by (induction xs) (auto simp: store_get_def)

lemma store_get_put_other:
  "k \<noteq> key r \<Longrightarrow> store_get key k (store_put key r xs) = store_get key k xs"
  by (induction xs) (auto simp: store_get_def)

section \<open>Properties of the translation pass\<close>

lemma pageStep_ok:
  assumes "env_image (env n) = Inr imgD" and "env_content (env n) = Inr (vp, items)"
    and "translateTexts cfg (env n) (map seg_text (extractTextSegments vp items)) = Inr resp"
    and "env_save (env n) = None"
  shows "pageStep cfg pid env n st
     = (st\<lparr>trace := trace st @ [RenderPage n, ExtractPage n, TranslatePage n, SavePage n],
           db := savePage pid (pageEntry n imgD (extractTextSegments vp items) resp) (db st)\<rparr>,
        None)"
  using assms by (simp add: pageStep_def logEvent_def Let_def)

lemma saved_page_lookup:
  "store_get page_id (pageKey pid (pageNumber entry)) (pages (savePage pid entry d))
     = Some \<lparr>page_id = pageKey pid (pageNumber entry), page_projectId = pid, page_data = entry\<rparr>"
  using store_get_put [of page_id
      "\<lparr>page_id = pageKey pid (pageNumber entry), page_projectId = pid, page_data = entry\<rparr>" "pages d"]
  by (simp add: savePage_def)

lemma pageStep_saved:
  assumes "env_image (env n) = Inr imgD" and "env_content (env n) = Inr (vp, items)"
    and "translateTexts cfg (env n) (map seg_text (extractTextSegments vp items)) = Inr resp"
    and "env_save (env n) = None"
  shows "snd (pageStep cfg pid env n st) = None"
    and "store_get page_id (pageKey pid n) (pages (db (fst (pageStep cfg pid env n st))))
     = Some \<lparr>page_id = pageKey pid n, page_projectId = pid,
             page_data = pageEntry n imgD (extractTextSegments vp items) resp\<rparr>"
  using saved_page_lookup [of pid "pageEntry n imgD (extractTextSegments vp items) resp" "db st"]
  by (simp_all add: pageStep_ok [where env = env and n = n, OF assms] pageEntry_def)

lemmas pass_defs = exampleConfig_def abcPage_def emptyState_def savedTexts_def itemAt_def letter_def
  pageStep_def logEvent_def translateTexts_def translateEconomic_def translateFree_def
  extractTextSegments_def toSegment_def nonEmptyItem_def trim_def isWhiteSpace_def
  pageEntry_def mergeSegments_def savePage_def pageKey_def numberToString_def
  store_get_def pageSegments_def of_ascii_def Let_def

lemma abc_texts:
  "map seg_text (extractTextSegments letter [itemAt ''a'' 60 700 10, itemAt ''b'' 60 680 10,
                                   itemAt ''c'' 60 660 10]) = [of_ascii ''a'', of_ascii ''b'', of_ascii ''c'']"
  by (simp add: pass_defs)

text \<open>
  Claim C5 fails as stated: an index the response covers does not always carry the
  translated string. For the texts a, b, c and the response "", y the saved texts are
  a, y, c: the empty entry at index 0 is replaced by the extracted text.
\<close>

theorem short_response_fallback_counterexample:
  "translateTexts (exampleConfig True) (abcPage (Parsed [[], of_ascii ''y'']) FetchFails)
     [of_ascii ''a'', of_ascii ''b'', of_ascii ''c''] = Inr [[], of_ascii ''y'']
 \<and> savedTexts (of_ascii ''p'') 1
      (fst (pageStep (exampleConfig True) (of_ascii ''p'')
              (\<lambda>n. abcPage (Parsed [[], of_ascii ''y'']) FetchFails) 1 emptyState))
     = Some [of_ascii ''a'', of_ascii ''y'', of_ascii ''c'']
 \<and> of_ascii ''a'' \<noteq> [[], of_ascii ''y''] ! 0"
  by (simp add: pass_defs)

text \<open>
  Claim C5, amended. When the translation call of a page returns a list shorter than
  the extracted texts (and rendering, extraction and saving succeed), the page step
  raises no error and the page saved has one segment per extracted segment, whose text is
  the returned string at every index the list covers with a non-empty string, and the
  extracted text at every other index.
\<close>

theorem short_response_fallback:
  assumes img: "env_image (env n) = Inr imgD"
    and content: "env_content (env n) = Inr (vp, items)"
    and resp: "translateTexts cfg (env n) (map seg_text (extractTextSegments vp items)) = Inr resp"
    and save: "env_save (env n) = None"
    and short: "length resp < length (extractTextSegments vp items)"
  shows "snd (pageStep cfg pid env n st) = None
       \<and> (\<exists>r merged.
             store_get page_id (pageKey pid n) (pages (db (fst (pageStep cfg pid env n st)))) = Some r
           \<and> segments (page_data r) = Some merged
           \<and> length merged = length (extractTextSegments vp items)
           \<and> (\<forall>i < length merged.
                 seg_text (merged ! i)
                   = (if i < length resp \<and> resp ! i \<noteq> [] then resp ! i
                      else seg_text (extractTextSegments vp items ! i))))"
proof -
  let ?segs = "extractTextSegments vp items"
  let ?merged = "mergeSegments ?segs resp"
  let ?r = "\<lparr>page_id = pageKey pid n, page_projectId = pid,
             page_data = pageEntry n imgD ?segs resp\<rparr>"
  note ps = pageStep_saved [where env = env and n = n, OF img content resp save, of pid st]
  have b: "segments (page_data ?r) = Some ?merged"
    by (simp add: pageEntry_def)
  have c: "length ?merged = length ?segs"
    by (rule length_mergeSegments)
  have d: "\<forall>i < length ?merged.
      seg_text (?merged ! i)
        = (if i < length resp \<and> resp ! i \<noteq> [] then resp ! i else seg_text (?segs ! i))"
    by (simp add: length_mergeSegments nth_mergeSegments)
  from ps(2) b c d have "\<exists>r merged.
             store_get page_id (pageKey pid n) (pages (db (fst (pageStep cfg pid env n st)))) = Some r
           \<and> segments (page_data r) = Some merged
           \<and> length merged = length ?segs
           \<and> (\<forall>i < length merged.
                 seg_text (merged ! i)
                   = (if i < length resp \<and> resp ! i \<noteq> [] then resp ! i
                      else seg_text (?segs ! i)))"
    by (intro exI [of _ ?r] exI [of _ ?merged] conjI)
  with ps(1) show ?thesis by (rule conjI)
qed

theorem short_response_fallback_witness:
  "env_image (abcPage (Parsed [of_ascii ''x'', of_ascii ''y'']) FetchFails) = Inr (of_ascii ''img'')
 \<and> env_save (abcPage (Parsed [of_ascii ''x'', of_ascii ''y'']) FetchFails) = None
 \<and> translateTexts (exampleConfig True) (abcPage (Parsed [of_ascii ''x'', of_ascii ''y'']) FetchFails)
      [of_ascii ''a'', of_ascii ''b'', of_ascii ''c''] = Inr [of_ascii ''x'', of_ascii ''y'']
 \<and> snd (pageStep (exampleConfig True) (of_ascii ''p'')
           (\<lambda>n. abcPage (Parsed [of_ascii ''x'', of_ascii ''y'']) FetchFails) 1 emptyState) = None
 \<and> savedTexts (of_ascii ''p'') 1
      (fst (pageStep (exampleConfig True) (of_ascii ''p'')
              (\<lambda>n. abcPage (Parsed [of_ascii ''x'', of_ascii ''y'']) FetchFails) 1 emptyState))
     = Some [of_ascii ''x'', of_ascii ''y'', of_ascii ''c'']"
proof -
  let ?env = "\<lambda>n::int. abcPage (Parsed [of_ascii ''x'', of_ascii ''y'']) FetchFails"
  let ?items = "[itemAt ''a'' 60 700 10, itemAt ''b'' 60 680 10, itemAt ''c'' 60 660 10]"
  have img: "env_image (?env 1) = Inr (of_ascii ''img'')"
    and content: "env_content (?env 1) = Inr (letter, ?items)"
    and save: "env_save (?env 1) = None"
    by (simp_all add: abcPage_def)
  have resp: "translateTexts (exampleConfig True) (?env 1)
      (map seg_text (extractTextSegments letter ?items)) = Inr [of_ascii ''x'', of_ascii ''y'']"
    by (simp add: pass_defs)
  have short: "length [of_ascii ''x'', of_ascii ''y''] < length (extractTextSegments letter ?items)"
    by (simp add: pass_defs)
  note fallback = short_response_fallback [where env = ?env and n = 1,
      OF img content resp save short, of "of_ascii ''p''" emptyState]
  then have "snd (pageStep (exampleConfig True) (of_ascii ''p'') ?env 1 emptyState) = None"
    by (rule conjunct1)
  moreover have "env_image (abcPage (Parsed [of_ascii ''x'', of_ascii ''y'']) FetchFails) = Inr (of_ascii ''img'')
 \<and> env_save (abcPage (Parsed [of_ascii ''x'', of_ascii ''y'']) FetchFails) = None
 \<and> translateTexts (exampleConfig True) (abcPage (Parsed [of_ascii ''x'', of_ascii ''y'']) FetchFails)
      [of_ascii ''a'', of_ascii ''b'', of_ascii ''c''] = Inr [of_ascii ''x'', of_ascii ''y'']
 \<and> savedTexts (of_ascii ''p'') 1
      (fst (pageStep (exampleConfig True) (of_ascii ''p'') ?env 1 emptyState))
     = Some [of_ascii ''x'', of_ascii ''y'', of_ascii ''c'']"
    by (simp add: pass_defs)
  ultimately show ?thesis by (simp only: simp_thms)
qed

text \<open>
  Claim C10. Whatever the length of the list the translation call returns, the saved
  segment at index \<open>i\<close> keeps its extracted text when the returned entry at \<open>i\<close> is the
  empty string, and differs from its extracted text only when the entry is present and
  not empty, in which case it is that entry; \<open>originalText\<close> holds the extracted text.
\<close>

theorem empty_translation_keeps_original:
  assumes img: "env_image (env n) = Inr imgD"
    and content: "env_content (env n) = Inr (vp, items)"
    and resp: "translateTexts cfg (env n) (map seg_text (extractTextSegments vp items)) = Inr resp"
    and save: "env_save (env n) = None"
  shows "\<exists>r merged.
             store_get page_id (pageKey pid n) (pages (db (fst (pageStep cfg pid env n st)))) = Some r
           \<and> segments (page_data r) = Some merged
           \<and> length merged = length (extractTextSegments vp items)
           \<and> (\<forall>i < length merged.
                 (i < length resp \<and> resp ! i = []
                    \<longrightarrow> seg_text (merged ! i) = seg_text (extractTextSegments vp items ! i))
               \<and> (seg_text (merged ! i) \<noteq> seg_text (extractTextSegments vp items ! i)
                    \<longrightarrow> i < length resp \<and> resp ! i \<noteq> [] \<and> seg_text (merged ! i) = resp ! i)
               \<and> originalText (merged ! i) = Some (seg_text (extractTextSegments vp items ! i)))"
proof -
  let ?segs = "extractTextSegments vp items"
  let ?merged = "mergeSegments ?segs resp"
  let ?r = "\<lparr>page_id = pageKey pid n, page_projectId = pid,
             page_data = pageEntry n imgD ?segs resp\<rparr>"
  note ps = pageStep_saved [where env = env and n = n, OF img content resp save, of pid st]
  have b: "segments (page_data ?r) = Some ?merged"
    by (simp add: pageEntry_def)
  have c: "length ?merged = length ?segs"
    by (rule length_mergeSegments)
  have d: "\<forall>i < length ?merged.
                 (i < length resp \<and> resp ! i = [] \<longrightarrow> seg_text (?merged ! i) = seg_text (?segs ! i))
               \<and> (seg_text (?merged ! i) \<noteq> seg_text (?segs ! i)
                    \<longrightarrow> i < length resp \<and> resp ! i \<noteq> [] \<and> seg_text (?merged ! i) = resp ! i)
               \<and> originalText (?merged ! i) = Some (seg_text (?segs ! i))"
    by (simp add: length_mergeSegments nth_mergeSegments)
  from ps(2) b c d show ?thesis
    by (intro exI [of _ ?r] exI [of _ ?merged] conjI)
qed

theorem empty_translation_keeps_original_witness:
  "translateTexts (exampleConfig True)
      (abcPage (Parsed [[], of_ascii ''y'', of_ascii ''z'']) FetchFails)
      [of_ascii ''a'', of_ascii ''b'', of_ascii ''c''] = Inr [[], of_ascii ''y'', of_ascii ''z'']
 \<and> savedTexts (of_ascii ''p'') 1
      (fst (pageStep (exampleConfig True) (of_ascii ''p'')
              (\<lambda>n. abcPage (Parsed [[], of_ascii ''y'', of_ascii ''z'']) FetchFails) 1 emptyState))
     = Some [of_ascii ''a'', of_ascii ''y'', of_ascii ''z'']"
proof -
  let ?env = "\<lambda>n::int. abcPage (Parsed [[], of_ascii ''y'', of_ascii ''z'']) FetchFails"
  let ?items = "[itemAt ''a'' 60 700 10, itemAt ''b'' 60 680 10, itemAt ''c'' 60 660 10]"
  have img: "env_image (?env 1) = Inr (of_ascii ''img'')"
    and content: "env_content (?env 1) = Inr (letter, ?items)"
    and save: "env_save (?env 1) = None"
    by (simp_all add: abcPage_def)
  have resp: "translateTexts (exampleConfig True) (?env 1)
      (map seg_text (extractTextSegments letter ?items)) = Inr [[], of_ascii ''y'', of_ascii ''z'']"
    by (simp add: pass_defs)
  note kept = empty_translation_keeps_original [where env = ?env and n = 1,
      OF img content resp save, of "of_ascii ''p''" emptyState]
  then have "\<exists>r. store_get page_id (pageKey (of_ascii ''p'') 1)
      (pages (db (fst (pageStep (exampleConfig True) (of_ascii ''p'') ?env 1 emptyState)))) = Some r"
    by blast
  moreover have "translateTexts (exampleConfig True)
      (abcPage (Parsed [[], of_ascii ''y'', of_ascii ''z'']) FetchFails)
      [of_ascii ''a'', of_ascii ''b'', of_ascii ''c''] = Inr [[], of_ascii ''y'', of_ascii ''z'']
 \<and> savedTexts (of_ascii ''p'') 1
      (fst (pageStep (exampleConfig True) (of_ascii ''p'') ?env 1 emptyState))
     = Some [of_ascii ''a'', of_ascii ''y'', of_ascii ''z'']"
    by (simp add: pass_defs)
  ultimately show ?thesis by - assumption
qed

section \<open>Properties of a whole pass\<close>

lemma digitValue_snoc: "digitValue (s @ [c]) = 10 * digitValue s + (unat c - 48)"
  by (simp add: digitValue_def)

lemma unat_digit: "d < 10 \<Longrightarrow> unat (48 + of_nat d :: 16 word) = 48 + d"
proof -
  assume d: "d < 10"
  have "(48 + of_nat d :: 16 word) = of_nat (48 + d)" by simp
  also have "unat \<dots> = (48 + d) mod 2 ^ LENGTH(16)" by (simp only: unat_of_nat)
  also have "\<dots> = 48 + d" using d by simp
  finally show ?thesis .
qed

lemma digitValue_digitsOf: "digitValue (digitsOf n) = n"
proof (induction n rule: digitsOf.induct)
  case (1 n)
  show ?case
  proof (cases "n < 10")
    case True
    then show ?thesis
      by (subst digitsOf.simps) (simp add: digitValue_def unat_digit del: digitsOf.simps)
  next
    case False
    have "digitValue (digitsOf n) = 10 * digitValue (digitsOf (n div 10)) + (unat (of_nat (48 + n mod 10) :: 16 word) - 48)"
      using False by (subst digitsOf.simps) (simp add: digitValue_snoc del: digitsOf.simps)
    also have "\<dots> = 10 * (n div 10) + n mod 10"
      using "1.IH" [OF False] by (simp add: unat_digit del: digitsOf.simps)
    finally show ?thesis by simp
  qed
qed

lemma digitsOf_inject: "digitsOf m = digitsOf n \<Longrightarrow> m = n"
  by (metis digitValue_digitsOf)

lemma hd_digitsOf: "digitsOf n \<noteq> [] \<and> hd (digitsOf n) \<noteq> 45"
proof (induction n rule: digitsOf.induct)
  case (1 n)
  show ?case
  proof (cases "n < 10")
    case True
    have "unat (48 + of_nat n :: 16 word) \<noteq> unat (45 :: 16 word)"
      using True by (simp add: unat_digit)
    then have "(48 + of_nat n :: 16 word) \<noteq> 45" by metis
    with True show ?thesis
      by (subst (1 2) digitsOf.simps) (simp del: digitsOf.simps)
  next
    case False
    with "1.IH" [OF False] show ?thesis
      by (subst (1 2) digitsOf.simps) (simp del: digitsOf.simps)
  qed
qed

lemma numberToString_inject: "numberToString m = numberToString n \<Longrightarrow> m = n"
proof -
  assume eq: "numberToString m = numberToString n"
  consider "m < 0" "n < 0" | "m < 0" "\<not> n < 0" | "\<not> m < 0" "n < 0" | "\<not> m < 0" "\<not> n < 0"
    by blast
  then show "m = n"
  proof cases
    case 1
    with eq have "nat (- m) = nat (- n)"
      by (simp add: numberToString_def digitsOf_inject del: digitsOf.simps)
    with 1 show ?thesis by simp
  next
    case 2
    with eq have "45 # digitsOf (nat (- m)) = digitsOf (nat n)"
      by (simp add: numberToString_def del: digitsOf.simps)
    with hd_digitsOf [of "nat n"] show ?thesis by (metis list.sel(1))
  next
    case 3
    with eq have "digitsOf (nat m) = 45 # digitsOf (nat (- n))"
      by (simp add: numberToString_def del: digitsOf.simps)
    with hd_digitsOf [of "nat m"] show ?thesis by (metis list.sel(1))
  next
    case 4
    with eq have "nat m = nat n"
      by (simp add: numberToString_def digitsOf_inject del: digitsOf.simps)
    with 4 show ?thesis by simp
  qed
qed

lemma pageKey_inject: "pageKey pid m = pageKey pid n \<longleftrightarrow> m = n"
  by (auto simp: pageKey_def dest: numberToString_inject)

lemma pageNumber_pageEntry: "pageNumber (pageEntry n imgD segs resp) = n"
  by (simp add: pageEntry_def)

lemma pageStep_None_cases:
  assumes "snd (pageStep cfg pid env n st) = None"
  obtains imgD vp items resp where "env_image (env n) = Inr imgD"
    and "env_content (env n) = Inr (vp, items)"
    and "translateTexts cfg (env n) (map seg_text (extractTextSegments vp items)) = Inr resp"
    and "env_save (env n) = None"
  using assms
  by (auto simp: pageStep_def logEvent_def Let_def split: sum.splits prod.splits option.splits)

lemma pageStep_Some_db:
  "snd (pageStep cfg pid env n st) = Some err \<Longrightarrow> db (fst (pageStep cfg pid env n st)) = db st"
  by (auto simp: pageStep_def logEvent_def Let_def split: sum.splits prod.splits option.splits)

lemma pageStep_db_cases:
  "db (fst (pageStep cfg pid env n st)) = db st
   \<or> (\<exists>entry. pageNumber entry = n \<and> db (fst (pageStep cfg pid env n st)) = savePage pid entry (db st))"
proof (cases "snd (pageStep cfg pid env n st)")
  case None
  then obtain imgD vp items resp where h: "env_image (env n) = Inr imgD"
    "env_content (env n) = Inr (vp, items)"
    "translateTexts cfg (env n) (map seg_text (extractTextSegments vp items)) = Inr resp"
    "env_save (env n) = None"
    by (rule pageStep_None_cases)
  have "db (fst (pageStep cfg pid env n st))
      = savePage pid (pageEntry n imgD (extractTextSegments vp items) resp) (db st)"
    by (simp add: pageStep_ok [where env = env and n = n, OF h])
  with pageNumber_pageEntry show ?thesis by blast
next
  case (Some err)
  then show ?thesis by (simp add: pageStep_Some_db)
qed

lemma pageStep_alerts: "alerts (fst (pageStep cfg pid env n st)) = alerts st"
  by (auto simp: pageStep_def logEvent_def Let_def split: sum.splits prod.splits option.splits)

lemma pageStep_trace:
  "\<exists>evs. trace (fst (pageStep cfg pid env n st)) = trace st @ evs \<and> (\<forall>ev \<in> set evs. eventPage ev = n)"
  by (auto simp: pageStep_def logEvent_def Let_def split: sum.splits prod.splits option.splits)

lemma pageStep_other_key:
  assumes "m \<noteq> n"
  shows "store_get page_id (pageKey pid m) (pages (db (fst (pageStep cfg pid env n st))))
       = store_get page_id (pageKey pid m) (pages (db st))"
proof -
  from pageStep_db_cases [of cfg pid env n st] show ?thesis
  proof
    assume "db (fst (pageStep cfg pid env n st)) = db st"
    then show ?thesis by simp
  next
    assume "\<exists>entry. pageNumber entry = n
        \<and> db (fst (pageStep cfg pid env n st)) = savePage pid entry (db st)"
    then obtain entry where e: "pageNumber entry = n"
      "db (fst (pageStep cfg pid env n st)) = savePage pid entry (db st)" by blast
    have "pageKey pid m \<noteq> pageKey pid n" using assms by (simp add: pageKey_inject)
    then show ?thesis
      by (simp add: e savePage_def store_get_put_other)
  qed
qed

lemma passLoop_Cons:
  "passLoop cfg pid env (n # ns) st
     = (case snd (pageStep cfg pid env n st) of
          Some err \<Rightarrow> (fst (pageStep cfg pid env n st))
                        \<lparr>alerts := alerts (fst (pageStep cfg pid env n st))
                                    @ [if err \<noteq> [] then err else msgDefault]\<rparr>
        | None \<Rightarrow> passLoop cfg pid env ns (fst (pageStep cfg pid env n st)))"
  by (simp split: prod.splits option.splits)

lemma passLoop_other_key:
  "m \<notin> set ns \<Longrightarrow>
   store_get page_id (pageKey pid m) (pages (db (passLoop cfg pid env ns st)))
     = store_get page_id (pageKey pid m) (pages (db st))"
proof (induction ns arbitrary: st)
  case Nil
  then show ?case by simp
next
  case (Cons n ns)
  then have mn: "m \<noteq> n" and rest: "m \<notin> set ns" by auto
  show ?case
  proof (cases "snd (pageStep cfg pid env n st)")
    case None
    then show ?thesis
      by (simp only: passLoop_Cons option.case Cons.IH [OF rest] pageStep_other_key [OF mn])
  next
    case (Some err)
    then show ?thesis
      by (simp add: passLoop_Cons pageStep_other_key [OF mn] del: passLoop.simps)
  qed
qed

lemma passLoop_trace:
  "\<forall>ev \<in> set (trace (passLoop cfg pid env ns st)). ev \<in> set (trace st) \<or> eventPage ev \<in> set ns"
proof (induction ns arbitrary: st)
  case Nil
  then show ?case by simp
next
  case (Cons n ns)
  obtain evs where evs: "trace (fst (pageStep cfg pid env n st)) = trace st @ evs"
    "\<forall>ev \<in> set evs. eventPage ev = n"
    using pageStep_trace by blast
  show ?case
  proof (cases "snd (pageStep cfg pid env n st)")
    case None
    with Cons.IH [of "fst (pageStep cfg pid env n st)"] evs show ?thesis
      by (auto simp add: passLoop_Cons simp del: passLoop.simps)
  next
    case (Some err)
    with evs show ?thesis
      by (auto simp add: passLoop_Cons simp del: passLoop.simps)
  qed
qed

lemma passLoop_append_ok:
  "\<forall>m \<in> set ps. \<forall>st'. snd (pageStep cfg pid env m st') = None \<Longrightarrow>
   passLoop cfg pid env (ps @ qs) st = passLoop cfg pid env qs (passLoop cfg pid env ps st)"
proof (induction ps arbitrary: st)
  case Nil
  then show ?case by simp
next
  case (Cons n ps)
  then have "snd (pageStep cfg pid env n st) = None" by simp
  with Cons show ?case
    by (simp add: passLoop_Cons del: passLoop.simps)
qed

lemma passLoop_ok_alerts:
  "\<forall>m \<in> set ps. \<forall>st'. snd (pageStep cfg pid env m st') = None \<Longrightarrow>
   alerts (passLoop cfg pid env ps st) = alerts st"
proof (induction ps arbitrary: st)
  case Nil
  then show ?case by simp
next
  case (Cons n ps)
  then have "snd (pageStep cfg pid env n st) = None" by simp
  with Cons show ?case
    by (simp add: passLoop_Cons pageStep_alerts del: passLoop.simps)
qed

lemma pageStep_translate_fails:
  assumes "env_image (env n) = Inr imgD" and "env_content (env n) = Inr (vp, items)"
    and "translateTexts cfg (env n) (map seg_text (extractTextSegments vp items)) = Inl err"
  shows "pageStep cfg pid env n st
     = (st\<lparr>trace := trace st @ [RenderPage n, ExtractPage n, TranslatePage n]\<rparr>, Some err)"
  using assms by (simp add: pageStep_def logEvent_def Let_def)

lemma msgAiFailure_nonempty: "msgAiFailure m \<noteq> []"
  by (simp add: msgAiFailure_def of_ascii_def)

lemma translateEconomic_error_nonempty:
  "translateEconomic manualKey envKey reply texts = Inl err \<Longrightarrow> err \<noteq> []"
  by (auto simp: translateEconomic_def Let_def msgAiFailure_nonempty msgNoApiKey_def of_ascii_def
      split: if_splits gemini_reply.splits option.splits)

lemma pageStep_completed:
  assumes ok: "snd (pageStep cfg pid env n st) = None"
  shows "\<exists>r. store_get page_id (pageKey pid n) (pages (db (fst (pageStep cfg pid env n st)))) = Some r
            \<and> page_projectId r = pid \<and> pageNumber (page_data r) = n"
proof -
  from ok obtain imgD vp items resp where h: "env_image (env n) = Inr imgD"
    "env_content (env n) = Inr (vp, items)"
    "translateTexts cfg (env n) (map seg_text (extractTextSegments vp items)) = Inr resp"
    "env_save (env n) = None"
    by (rule pageStep_None_cases)
  from pageStep_saved(2) [where env = env and n = n, OF h, of pid st] show ?thesis
    by (simp add: pageNumber_pageEntry)
qed

lemma translateFree_failure:
  "\<not> (\<exists>parts. reply = TranslatedParts parts) \<Longrightarrow> translateFree isPure protect reply texts = texts"
  by (cases reply) (auto simp: translateFree_def)

lemma passLoop_single_ok:
  "snd (pageStep cfg pid env n st) = None \<Longrightarrow> passLoop cfg pid env [n] st = fst (pageStep cfg pid env n st)"
  by (simp add: passLoop_Cons del: passLoop.simps(2))

lemma startTranslation_runs:
  assumes "pdfLoaded req" and "activeProjectId req = Some pid" and "pid \<noteq> []"
    and "useAI cfg \<longrightarrow> hasStoredKey req"
    and "rangeStart req = Some rs" and "rangeEnd req = Some re"
  shows "startTranslation cfg req env st
       = passLoop cfg pid env [max 1 rs .. min (req_numPages req) re] st"
  using assms by (auto simp: startTranslation_def)

lemma abc_step:
  assumes "translateTexts cfg (abcPage g f) [of_ascii ''a'', of_ascii ''b'', of_ascii ''c''] = Inr resp"
    and "env n = abcPage g f"
  shows "pageStep cfg pid env n st
     = (st\<lparr>trace := trace st @ [RenderPage n, ExtractPage n, TranslatePage n, SavePage n],
           db := savePage pid
                   (pageEntry n (of_ascii ''img'')
                      (extractTextSegments letter
                         [itemAt ''a'' 60 700 10, itemAt ''b'' 60 680 10, itemAt ''c'' 60 660 10])
                      resp)
                   (db st)\<rparr>,
        None)"
proof (rule pageStep_ok)
  show "env_image (env n) = Inr (of_ascii ''img'')"
    and "env_content (env n)
       = Inr (letter, [itemAt ''a'' 60 700 10, itemAt ''b'' 60 680 10, itemAt ''c'' 60 660 10])"
    and "env_save (env n) = None"
    by (simp_all add: assms(2) abcPage_def)
  show "translateTexts cfg (env n)
      (map seg_text (extractTextSegments letter
         [itemAt ''a'' 60 700 10, itemAt ''b'' 60 680 10, itemAt ''c'' 60 660 10])) = Inr resp"
    by (simp only: abc_texts assms)
qed

lemma savedTexts_savePage:
  "savedTexts pid n (st\<lparr>db := savePage pid (pageEntry m imgD segs resp) d\<rparr>)
     = (if m = n then Some (map seg_text (mergeSegments segs resp))
        else savedTexts pid n (st\<lparr>db := d\<rparr>))"
  using saved_page_lookup [of pid "pageEntry m imgD segs resp" d]
  by (auto simp: savedTexts_def savePage_def store_get_put_other pageKey_inject
        pageNumber_pageEntry pageSegments_def pageEntry_def)

lemma savedTexts_trace [simp]: "savedTexts pid n (st\<lparr>trace := t\<rparr>) = savedTexts pid n st"
  by (simp add: savedTexts_def)

lemma savedTexts_alerts [simp]: "savedTexts pid n (st\<lparr>alerts := t\<rparr>) = savedTexts pid n st"
  by (simp add: savedTexts_def)

lemma savedTexts_empty: "savedTexts pid n (emptyState\<lparr>db := db emptyState\<rparr>) = None"
  by (simp add: savedTexts_def emptyState_def store_get_def)

lemma abc_merge:
  "map seg_text (mergeSegments
      (extractTextSegments letter [itemAt ''a'' 60 700 10, itemAt ''b'' 60 680 10, itemAt ''c'' 60 660 10])
      [r0, r1, r2])
   = [if r0 \<noteq> [] then r0 else of_ascii ''a'', if r1 \<noteq> [] then r1 else of_ascii ''b'',
      if r2 \<noteq> [] then r2 else of_ascii ''c'']"
  by (simp add: pass_defs)

text \<open>
  The AI backend: a throwing call of \<open>translateEconomic\<close> for page \<open>n\<close>, after the
  pages before \<open>n\<close> completed, ends the pass there.
\<close>

lemma ai_failure_aborts:
  fixes cfg :: pass_config and req :: pass_request and env :: "int \<Rightarrow> page_env"
    and st :: pass_state and pid :: js_string and rs re :: int
  defines "s \<equiv> max 1 rs" and "e \<equiv> min (req_numPages req) re"
  defines "final \<equiv> startTranslation cfg req env st"
  assumes ai: "useAI cfg"
    and started: "pdfLoaded req" "activeProjectId req = Some pid" "pid \<noteq> []" "hasStoredKey req"
      "rangeStart req = Some rs" "rangeEnd req = Some re"
    and range: "s \<le> n" "n \<le> e"
    and before: "\<forall>m \<in> {s..<n}. \<forall>st'. snd (pageStep cfg pid env m st') = None"
    and img: "env_image (env n) = Inr imgD"
    and content: "env_content (env n) = Inr (vp, items)"
    and fails: "translateEconomic (Some (apiKeyInput cfg)) (envApiKey cfg) (env_gemini (env n))
                  (map seg_text (extractTextSegments vp items)) = Inl err"
  shows "alerts final = alerts st @ [err] \<and> err \<noteq> []
       \<and> (\<forall>ev \<in> set (trace final). ev \<in> set (trace st) \<or> eventPage ev \<le> n)
       \<and> (\<forall>k \<ge> n. store_get page_id (pageKey pid k) (pages (db final))
                    = store_get page_id (pageKey pid k) (pages (db st)))
       \<and> (\<forall>m \<in> {s..<n}. \<exists>r.
              store_get page_id (pageKey pid m) (pages (db final)) = Some r
            \<and> page_projectId r = pid \<and> pageNumber (page_data r) = m
            \<and> store_get page_id (pageKey pid m) (pages (db (passLoop cfg pid env [s..m] st))) = Some r)"
proof -
  let ?done = "passLoop cfg pid env [s..n - 1] st"
  have ok: "\<forall>m \<in> set [s..n - 1]. \<forall>st'. snd (pageStep cfg pid env m st') = None"
    using before by simp
  have nonempty: "err \<noteq> []"
    using fails by (rule translateEconomic_error_nonempty)
  have tt: "translateTexts cfg (env n) (map seg_text (extractTextSegments vp items)) = Inl err"
    using ai fails by (simp add: translateTexts_def)
  have step: "pageStep cfg pid env n ?done
     = (?done\<lparr>trace := trace ?done @ [RenderPage n, ExtractPage n, TranslatePage n]\<rparr>, Some err)"
    using img content tt by (rule pageStep_translate_fails)
  have "[s..e] = [s..n - 1] @ n # [n + 1..e]"
    using range by (rule upto_split3)
  moreover have "final = passLoop cfg pid env [s..e] st"
    unfolding final_def s_def e_def using started by (intro startTranslation_runs) simp_all
  ultimately have "final = passLoop cfg pid env (n # [n + 1..e]) ?done"
    using passLoop_append_ok [OF ok] by simp
  then have final: "final = ?done\<lparr>trace := trace ?done @ [RenderPage n, ExtractPage n, TranslatePage n],
                                  alerts := alerts ?done @ [err]\<rparr>"
    using nonempty by (simp add: passLoop_Cons step del: passLoop.simps)
  have 1: "alerts final = alerts st @ [err]"
    by (simp add: final passLoop_ok_alerts [OF ok])
  have 2: "\<forall>ev \<in> set (trace final). ev \<in> set (trace st) \<or> eventPage ev \<le> n"
  proof
    fix ev assume "ev \<in> set (trace final)"
    then consider "ev \<in> set (trace ?done)" | "eventPage ev = n"
      by (auto simp: final)
    then show "ev \<in> set (trace st) \<or> eventPage ev \<le> n"
    proof cases
      case 1
      with passLoop_trace [of cfg pid env "[s..n - 1]" st] show ?thesis by fastforce
    next
      case 2
      then show ?thesis by simp
    qed
  qed
  have dbf: "db final = db ?done" by (simp add: final)
  have 3: "\<forall>k \<ge> n. store_get page_id (pageKey pid k) (pages (db final))
                    = store_get page_id (pageKey pid k) (pages (db st))"
    by (simp add: dbf passLoop_other_key)
  have 4: "\<forall>m \<in> {s..<n}. \<exists>r.
              store_get page_id (pageKey pid m) (pages (db final)) = Some r
            \<and> page_projectId r = pid \<and> pageNumber (page_data r) = m
            \<and> store_get page_id (pageKey pid m) (pages (db (passLoop cfg pid env [s..m] st))) = Some r"
  proof
    fix m assume "m \<in> {s..<n}"
    then have m: "s \<le> m" "m \<le> n - 1" by simp_all
    let ?upto = "passLoop cfg pid env [s..m] st"
    let ?pre = "passLoop cfg pid env [s..m - 1] st"
    have okm: "\<forall>k \<in> set [s..m]. \<forall>st'. snd (pageStep cfg pid env k st') = None"
      using before m by simp
    have okp: "\<forall>k \<in> set [s..m - 1]. \<forall>st'. snd (pageStep cfg pid env k st') = None"
      using before m by simp
    have stepm: "snd (pageStep cfg pid env m ?pre) = None"
      using before m by simp
    have "[s..n - 1] = [s..m] @ [m + 1..n - 1]"
      using m by (rule upto_split2)
    then have "?done = passLoop cfg pid env [m + 1..n - 1] ?upto"
      using passLoop_append_ok [OF okm] by simp
    then have same: "store_get page_id (pageKey pid m) (pages (db final))
        = store_get page_id (pageKey pid m) (pages (db ?upto))"
      by (simp add: dbf passLoop_other_key)
    have "[s..m] = [s..m - 1] @ [m]"
      using m(1) by (simp add: upto_rec2)
    then have "?upto = passLoop cfg pid env [m] ?pre"
      using passLoop_append_ok [OF okp] by simp
    then have "?upto = fst (pageStep cfg pid env m ?pre)"
      using stepm by (simp only: passLoop_single_ok)
    with pageStep_completed [OF stepm] obtain r where
      "store_get page_id (pageKey pid m) (pages (db ?upto)) = Some r"
      "page_projectId r = pid" "pageNumber (page_data r) = m"
      by auto
    with same show "\<exists>r.
              store_get page_id (pageKey pid m) (pages (db final)) = Some r
            \<and> page_projectId r = pid \<and> pageNumber (page_data r) = m
            \<and> store_get page_id (pageKey pid m) (pages (db ?upto)) = Some r"
      by simp
  qed
  from 1 nonempty 2 3 4 show ?thesis by (intro conjI)
qed

text \<open>
  The free backend: \<open>translateTexts\<close> never fails, so when rendering, extraction and
  saving succeed for every page of the range, the pass saves every page and alerts
  nothing; a page whose request failed is saved with its extracted texts.
\<close>

lemma mergeSegments_same_texts:
  "map seg_text (mergeSegments segs (map seg_text segs)) = map seg_text segs"
  by (rule nth_equalityI) (simp_all add: length_mergeSegments nth_mergeSegments)

lemma free_step_ok:
  assumes "\<not> useAI cfg" and "env_image (env n) = Inr imgD"
    and "env_content (env n) = Inr (vp, items)" and "env_save (env n) = None"
  shows "snd (pageStep cfg pid env n st) = None"
    and "store_get page_id (pageKey pid n) (pages (db (fst (pageStep cfg pid env n st))))
       = Some \<lparr>page_id = pageKey pid n, page_projectId = pid,
               page_data = pageEntry n imgD (extractTextSegments vp items)
                 (translateFree (isPureCode cfg) (protectTerms cfg) (env_free (env n))
                    (map seg_text (extractTextSegments vp items)))\<rparr>"
proof -
  have tr: "translateTexts cfg (env n) (map seg_text (extractTextSegments vp items))
      = Inr (translateFree (isPureCode cfg) (protectTerms cfg) (env_free (env n))
               (map seg_text (extractTextSegments vp items)))"
    using assms(1) by (simp add: translateTexts_def)
  note ps = pageStep_saved [where env = env and n = n, OF assms(2) assms(3) tr assms(4), of pid st]
  show "snd (pageStep cfg pid env n st) = None" by (rule ps(1))
  show "store_get page_id (pageKey pid n) (pages (db (fst (pageStep cfg pid env n st))))
       = Some \<lparr>page_id = pageKey pid n, page_projectId = pid,
               page_data = pageEntry n imgD (extractTextSegments vp items)
                 (translateFree (isPureCode cfg) (protectTerms cfg) (env_free (env n))
                    (map seg_text (extractTextSegments vp items)))\<rparr>"
    by (rule ps(2))
qed

lemma free_pass_continues:
  fixes cfg :: pass_config and env :: "int \<Rightarrow> page_env" and st :: pass_state
    and pid :: js_string and s e :: int
  defines "final \<equiv> passLoop cfg pid env [s..e] st"
  assumes free: "\<not> useAI cfg"
    and fine: "\<forall>m \<in> {s..e}. (\<exists>img. env_image (env m) = Inr img)
                 \<and> (\<exists>c. env_content (env m) = Inr c) \<and> env_save (env m) = None"
  shows "alerts final = alerts st
       \<and> (\<forall>m \<in> {s..e}. \<forall>vp items. env_content (env m) = Inr (vp, items) \<longrightarrow>
            (\<exists>r. store_get page_id (pageKey pid m) (pages (db final)) = Some r
                \<and> page_projectId r = pid \<and> pageNumber (page_data r) = m
                \<and> (env_free (env m) = FetchFails \<or> env_free (env m) = ResponseNotOk
                      \<or> env_free (env m) = NoTranslation
                    \<longrightarrow> map seg_text (pageSegments (page_data r))
                          = map seg_text (extractTextSegments vp items))))"
proof -
  have ok: "\<forall>m \<in> {s..e}. \<forall>st'. snd (pageStep cfg pid env m st') = None"
  proof (intro ballI allI)
    fix m st' assume "m \<in> {s..e}"
    with fine obtain img c where "env_image (env m) = Inr img" "env_content (env m) = Inr c"
      "env_save (env m) = None" by blast
    then show "snd (pageStep cfg pid env m st') = None"
      using free_step_ok(1) [where env = env and n = m, OF free, of img "fst c" "snd c" pid st']
      by simp
  qed
  then have okl: "\<forall>m \<in> set [s..e]. \<forall>st'. snd (pageStep cfg pid env m st') = None"
    by simp
  have 1: "alerts final = alerts st"
    unfolding final_def by (rule passLoop_ok_alerts [OF okl])
  have 2: "\<exists>r. store_get page_id (pageKey pid m) (pages (db final)) = Some r
                \<and> page_projectId r = pid \<and> pageNumber (page_data r) = m
                \<and> (env_free (env m) = FetchFails \<or> env_free (env m) = ResponseNotOk
                      \<or> env_free (env m) = NoTranslation
                    \<longrightarrow> map seg_text (pageSegments (page_data r))
                          = map seg_text (extractTextSegments vp items))"
    if m: "m \<in> {s..e}" and c: "env_content (env m) = Inr (vp, items)" for m vp items
  proof -
    from m have range: "s \<le> m" "m \<le> e" by simp_all
    from fine m obtain img where img: "env_image (env m) = Inr img"
      and save: "env_save (env m) = None" by blast
    let ?texts = "map seg_text (extractTextSegments vp items)"
    let ?resp = "translateFree (isPureCode cfg) (protectTerms cfg) (env_free (env m)) ?texts"
    let ?r = "\<lparr>page_id = pageKey pid m, page_projectId = pid,
               page_data = pageEntry m img (extractTextSegments vp items) ?resp\<rparr>"
    let ?pre = "passLoop cfg pid env [s..m - 1] st"
    have okp: "\<forall>k \<in> set [s..m - 1]. \<forall>st'. snd (pageStep cfg pid env k st') = None"
      using ok range by simp
    have stepm: "snd (pageStep cfg pid env m ?pre) = None"
      using ok m by blast
    have "[s..e] = [s..m - 1] @ m # [m + 1..e]"
      using range by (rule upto_split3)
    then have "final = passLoop cfg pid env (m # [m + 1..e]) ?pre"
      unfolding final_def using passLoop_append_ok [OF okp] by simp
    then have "final = passLoop cfg pid env [m + 1..e] (fst (pageStep cfg pid env m ?pre))"
      using stepm by (simp add: passLoop_Cons del: passLoop.simps)
    then have "store_get page_id (pageKey pid m) (pages (db final))
        = store_get page_id (pageKey pid m) (pages (db (fst (pageStep cfg pid env m ?pre))))"
      by (simp add: passLoop_other_key)
    also have "\<dots> = Some ?r"
      by (rule free_step_ok(2) [where env = env and n = m, OF free img c save])
    finally have a: "store_get page_id (pageKey pid m) (pages (db final)) = Some ?r" .
    have b: "page_projectId ?r = pid" "pageNumber (page_data ?r) = m"
      by (simp_all add: pageNumber_pageEntry)
    have d: "map seg_text (pageSegments (page_data ?r)) = ?texts"
      if "env_free (env m) = FetchFails \<or> env_free (env m) = ResponseNotOk
            \<or> env_free (env m) = NoTranslation"
    proof -
      from that have "?resp = ?texts"
        by (intro translateFree_failure) auto
      then show ?thesis
        by (simp add: pageEntry_def pageSegments_def mergeSegments_same_texts)
    qed
    from a b d show ?thesis by blast
  qed
  from 1 2 show ?thesis by blast
qed

text \<open>
  Claim C6 fails as stated for the free backend: \<open>translateFree\<close> catches a failed
  request and returns the input texts, so the pass is not aborted and shows no message.
  With the request failing on every page of the range 1 to 2, both pages are extracted,
  passed to the backend and saved with their extracted texts, and nothing is alerted.
\<close>

theorem free_failure_continues_counterexample:
  "env_free (abcPage EmptyText FetchFails) = FetchFails
 \<and> alerts (startTranslation (exampleConfig False) (exampleRequest 1 2)
             (\<lambda>n. abcPage EmptyText FetchFails) emptyState) = []
 \<and> trace (startTranslation (exampleConfig False) (exampleRequest 1 2)
             (\<lambda>n. abcPage EmptyText FetchFails) emptyState)
     = [RenderPage 1, ExtractPage 1, TranslatePage 1, SavePage 1,
        RenderPage 2, ExtractPage 2, TranslatePage 2, SavePage 2]
 \<and> savedTexts (of_ascii ''p'') 1
      (startTranslation (exampleConfig False) (exampleRequest 1 2)
         (\<lambda>n. abcPage EmptyText FetchFails) emptyState)
     = Some [of_ascii ''a'', of_ascii ''b'', of_ascii ''c'']
 \<and> savedTexts (of_ascii ''p'') 2
      (startTranslation (exampleConfig False) (exampleRequest 1 2)
         (\<lambda>n. abcPage EmptyText FetchFails) emptyState)
     = Some [of_ascii ''a'', of_ascii ''b'', of_ascii ''c'']"
proof -
  let ?env = "\<lambda>n::int. abcPage EmptyText FetchFails"
  have tr: "translateTexts (exampleConfig False) (abcPage EmptyText FetchFails)
      [of_ascii ''a'', of_ascii ''b'', of_ascii ''c'']
      = Inr [of_ascii ''a'', of_ascii ''b'', of_ascii ''c'']"
    by (simp add: translateTexts_def exampleConfig_def abcPage_def translateFree_def)
  have run: "startTranslation (exampleConfig False) (exampleRequest 1 2) ?env emptyState
      = passLoop (exampleConfig False) (of_ascii ''p'') ?env [1, 2] emptyState"
    by (simp add: startTranslation_def exampleRequest_def exampleConfig_def of_ascii_def upto_rec1)
  show ?thesis
    unfolding run
    by (simp add: abc_step [OF tr] savedTexts_savePage abc_merge abcPage_def)
       (simp add: emptyState_def of_ascii_def)
qed

text \<open>
  Claim C6, amended. With the AI backend, when the call of \<open>translateEconomic\<close> for page
  \<open>n\<close> of the range throws (no key, a failed request, an empty or unparsable response)
  and the pages of the range before \<open>n\<close> completed, the pass is aborted: the message of
  the error, which is not empty, is alerted; the trace holds no call for a page after
  \<open>n\<close>; neither page \<open>n\<close> nor a later page is saved; and every page before \<open>n\<close> is in
  the store with the record it had when its own step completed. With the free backend,
  when rendering, extraction and saving succeed for every page of the range, nothing is
  alerted and every page of the range is saved, whatever the backend replied; a page
  whose backend call failed (the request threw, the response was not ok, or it held no
  translation) is saved with its extracted texts.
\<close>

theorem translation_failure_policy:
  fixes cfg :: pass_config and req :: pass_request and env :: "int \<Rightarrow> page_env"
    and st :: pass_state and pid :: js_string and rs re :: int
  defines "s \<equiv> max 1 rs" and "e \<equiv> min (req_numPages req) re"
  defines "final \<equiv> startTranslation cfg req env st"
  assumes started: "pdfLoaded req" "activeProjectId req = Some pid" "pid \<noteq> []"
      "useAI cfg \<longrightarrow> hasStoredKey req" "rangeStart req = Some rs" "rangeEnd req = Some re"
  shows "(useAI cfg \<and> s \<le> n \<and> n \<le> e
          \<and> (\<forall>m \<in> {s..<n}. \<forall>st'. snd (pageStep cfg pid env m st') = None)
          \<and> env_image (env n) = Inr imgD \<and> env_content (env n) = Inr (vp, items)
          \<and> translateEconomic (Some (apiKeyInput cfg)) (envApiKey cfg) (env_gemini (env n))
               (map seg_text (extractTextSegments vp items)) = Inl err
          \<longrightarrow> alerts final = alerts st @ [err] \<and> err \<noteq> []
            \<and> (\<forall>ev \<in> set (trace final). ev \<in> set (trace st) \<or> eventPage ev \<le> n)
            \<and> (\<forall>k \<ge> n. store_get page_id (pageKey pid k) (pages (db final))
                         = store_get page_id (pageKey pid k) (pages (db st)))
            \<and> (\<forall>m \<in> {s..<n}. \<exists>r.
                   store_get page_id (pageKey pid m) (pages (db final)) = Some r
                 \<and> page_projectId r = pid \<and> pageNumber (page_data r) = m
                 \<and> store_get page_id (pageKey pid m)
                      (pages (db (passLoop cfg pid env [s..m] st))) = Some r))
       \<and> (\<not> useAI cfg
          \<and> (\<forall>m \<in> {s..e}. (\<exists>img. env_image (env m) = Inr img)
                 \<and> (\<exists>c. env_content (env m) = Inr c) \<and> env_save (env m) = None)
          \<longrightarrow> alerts final = alerts st
            \<and> (\<forall>m \<in> {s..e}. \<forall>vp' items'. env_content (env m) = Inr (vp', items') \<longrightarrow>
                 (\<exists>r. store_get page_id (pageKey pid m) (pages (db final)) = Some r
                     \<and> page_projectId r = pid \<and> pageNumber (page_data r) = m
                     \<and> (env_free (env m) = FetchFails \<or> env_free (env m) = ResponseNotOk
                           \<or> env_free (env m) = NoTranslation
                         \<longrightarrow> map seg_text (pageSegments (page_data r))
                               = map seg_text (extractTextSegments vp' items')))))"
proof (rule conjI; rule impI)
  assume a: "useAI cfg \<and> s \<le> n \<and> n \<le> e
          \<and> (\<forall>m \<in> {s..<n}. \<forall>st'. snd (pageStep cfg pid env m st') = None)
          \<and> env_image (env n) = Inr imgD \<and> env_content (env n) = Inr (vp, items)
          \<and> translateEconomic (Some (apiKeyInput cfg)) (envApiKey cfg) (env_gemini (env n))
               (map seg_text (extractTextSegments vp items)) = Inl err"
  then have ai: "useAI cfg" and range: "max 1 rs \<le> n" "n \<le> min (req_numPages req) re"
    and before: "\<forall>m \<in> {max 1 rs..<n}. \<forall>st'. snd (pageStep cfg pid env m st') = None"
    and img: "env_image (env n) = Inr imgD" and content: "env_content (env n) = Inr (vp, items)"
    and fails: "translateEconomic (Some (apiKeyInput cfg)) (envApiKey cfg) (env_gemini (env n))
               (map seg_text (extractTextSegments vp items)) = Inl err"
    unfolding s_def e_def by blast+
  from ai started(4) have key: "hasStoredKey req" by simp
  show "alerts final = alerts st @ [err] \<and> err \<noteq> []
            \<and> (\<forall>ev \<in> set (trace final). ev \<in> set (trace st) \<or> eventPage ev \<le> n)
            \<and> (\<forall>k \<ge> n. store_get page_id (pageKey pid k) (pages (db final))
                         = store_get page_id (pageKey pid k) (pages (db st)))
            \<and> (\<forall>m \<in> {s..<n}. \<exists>r.
                   store_get page_id (pageKey pid m) (pages (db final)) = Some r
                 \<and> page_projectId r = pid \<and> pageNumber (page_data r) = m
                 \<and> store_get page_id (pageKey pid m)
                      (pages (db (passLoop cfg pid env [s..m] st))) = Some r)"
    unfolding final_def s_def e_def
    by (rule ai_failure_aborts [where env = env and n = n,
          OF ai started(1,2,3) key started(5,6) range before img content fails])
next
  assume f: "\<not> useAI cfg
          \<and> (\<forall>m \<in> {s..e}. (\<exists>img. env_image (env m) = Inr img)
                 \<and> (\<exists>c. env_content (env m) = Inr c) \<and> env_save (env m) = None)"
  then have free: "\<not> useAI cfg"
    and fine: "\<forall>m \<in> {s..e}. (\<exists>img. env_image (env m) = Inr img)
                 \<and> (\<exists>c. env_content (env m) = Inr c) \<and> env_save (env m) = None"
    by blast+
  have run: "final = passLoop cfg pid env [s..e] st"
    unfolding final_def s_def e_def using started by (intro startTranslation_runs) simp_all
  show "alerts final = alerts st
            \<and> (\<forall>m \<in> {s..e}. \<forall>vp' items'. env_content (env m) = Inr (vp', items') \<longrightarrow>
                 (\<exists>r. store_get page_id (pageKey pid m) (pages (db final)) = Some r
                     \<and> page_projectId r = pid \<and> pageNumber (page_data r) = m
                     \<and> (env_free (env m) = FetchFails \<or> env_free (env m) = ResponseNotOk
                           \<or> env_free (env m) = NoTranslation
                         \<longrightarrow> map seg_text (pageSegments (page_data r))
                               = map seg_text (extractTextSegments vp' items'))))"
    unfolding run by (rule free_pass_continues [OF free fine])
qed

theorem translation_failure_policy_witness:
  "useAI (exampleConfig True)
 \<and> translateEconomic (Some (apiKeyInput (exampleConfig True))) (envApiKey (exampleConfig True))
      (env_gemini (quotaEnv 2)) [of_ascii ''a'', of_ascii ''b'', of_ascii ''c'']
     = Inl (msgAiFailure (of_ascii ''quota''))
 \<and> alerts (startTranslation (exampleConfig True) (exampleRequest 1 3) quotaEnv emptyState)
     = [msgAiFailure (of_ascii ''quota'')]
 \<and> trace (startTranslation (exampleConfig True) (exampleRequest 1 3) quotaEnv emptyState)
     = [RenderPage 1, ExtractPage 1, TranslatePage 1, SavePage 1,
        RenderPage 2, ExtractPage 2, TranslatePage 2]
 \<and> savedTexts (of_ascii ''p'') 1
      (startTranslation (exampleConfig True) (exampleRequest 1 3) quotaEnv emptyState)
     = Some [of_ascii ''x'', of_ascii ''y'', of_ascii ''z'']
 \<and> savedTexts (of_ascii ''p'') 2
      (startTranslation (exampleConfig True) (exampleRequest 1 3) quotaEnv emptyState) = None
 \<and> savedTexts (of_ascii ''p'') 3
      (startTranslation (exampleConfig True) (exampleRequest 1 3) quotaEnv emptyState) = None
 \<and> \<not> useAI (exampleConfig False)
 \<and> env_free (abcPage EmptyText ResponseNotOk) = ResponseNotOk
 \<and> alerts (startTranslation (exampleConfig False) (exampleRequest 1 2)
             (\<lambda>n. abcPage EmptyText ResponseNotOk) emptyState) = []
 \<and> savedTexts (of_ascii ''p'') 1
      (startTranslation (exampleConfig False) (exampleRequest 1 2)
         (\<lambda>n. abcPage EmptyText ResponseNotOk) emptyState)
     = Some [of_ascii ''a'', of_ascii ''b'', of_ascii ''c'']
 \<and> savedTexts (of_ascii ''p'') 2
      (startTranslation (exampleConfig False) (exampleRequest 1 2)
         (\<lambda>n. abcPage EmptyText ResponseNotOk) emptyState)
     = Some [of_ascii ''a'', of_ascii ''b'', of_ascii ''c'']"
proof -
  let ?cfg = "exampleConfig True"
  let ?req = "exampleRequest 1 3"
  let ?pid = "of_ascii ''p''"
  let ?items = "[itemAt ''a'' 60 700 10, itemAt ''b'' 60 680 10, itemAt ''c'' 60 660 10]"
  let ?final = "startTranslation ?cfg ?req quotaEnv emptyState"
  have ai: "useAI ?cfg" by (simp add: exampleConfig_def)
  have started: "pdfLoaded ?req" "activeProjectId ?req = Some ?pid" "?pid \<noteq> []"
    "useAI ?cfg \<longrightarrow> hasStoredKey ?req" "rangeStart ?req = Some 1" "rangeEnd ?req = Some 3"
    by (simp_all add: exampleRequest_def of_ascii_def)
  have range: "max 1 (1::int) \<le> 2" "2 \<le> min (req_numPages ?req) 3"
    by (simp_all add: exampleRequest_def)
  have tr1: "translateTexts ?cfg (abcPage (Parsed [of_ascii ''x'', of_ascii ''y'', of_ascii ''z'']) FetchFails)
      [of_ascii ''a'', of_ascii ''b'', of_ascii ''c'']
      = Inr [of_ascii ''x'', of_ascii ''y'', of_ascii ''z'']"
    by (simp add: translateTexts_def translateEconomic_def exampleConfig_def abcPage_def of_ascii_def)
  have env1: "quotaEnv 1 = abcPage (Parsed [of_ascii ''x'', of_ascii ''y'', of_ascii ''z'']) FetchFails"
    by (simp add: quotaEnv_def)
  have before: "\<forall>m \<in> {max 1 1..<2}. \<forall>st'. snd (pageStep ?cfg ?pid quotaEnv m st') = None"
  proof
    fix m :: int assume "m \<in> {max 1 1..<2}"
    then have "m = 1" by simp
    then show "\<forall>st'. snd (pageStep ?cfg ?pid quotaEnv m st') = None"
      by (simp add: abc_step [where env = quotaEnv and n = 1, OF tr1 env1])
  qed
  have img: "env_image (quotaEnv 2) = Inr (of_ascii ''img'')"
    and content: "env_content (quotaEnv 2) = Inr (letter, ?items)"
    by (simp_all add: quotaEnv_def abcPage_def)
  have fails: "translateEconomic (Some (apiKeyInput ?cfg)) (envApiKey ?cfg) (env_gemini (quotaEnv 2))
      (map seg_text (extractTextSegments letter ?items)) = Inl (msgAiFailure (of_ascii ''quota''))"
    by (simp add: abc_texts translateEconomic_def exampleConfig_def quotaEnv_def abcPage_def of_ascii_def)
  note policy = translation_failure_policy [where cfg = ?cfg and req = ?req and env = quotaEnv
      and st = emptyState and n = 2 and imgD = "of_ascii ''img''" and vp = letter and items = ?items
      and err = "msgAiFailure (of_ascii ''quota'')", OF started, THEN conjunct1]
  from policy ai range before img content fails
  have "alerts ?final = alerts emptyState @ [msgAiFailure (of_ascii ''quota'')]"
    by blast
  then have a: "alerts ?final = [msgAiFailure (of_ascii ''quota'')]"
    by (simp add: emptyState_def)
  have tt2: "translateTexts ?cfg (quotaEnv 2) (map seg_text (extractTextSegments letter ?items))
      = Inl (msgAiFailure (of_ascii ''quota''))"
    using ai fails by (simp add: translateTexts_def)
  have run: "?final = passLoop ?cfg ?pid quotaEnv [1, 2, 3] emptyState"
    by (simp add: startTranslation_def exampleRequest_def exampleConfig_def of_ascii_def upto_rec1)
  have b: "trace ?final = [RenderPage 1, ExtractPage 1, TranslatePage 1, SavePage 1,
        RenderPage 2, ExtractPage 2, TranslatePage 2]
     \<and> savedTexts ?pid 1 ?final = Some [of_ascii ''x'', of_ascii ''y'', of_ascii ''z'']
     \<and> savedTexts ?pid 2 ?final = None \<and> savedTexts ?pid 3 ?final = None"
    unfolding run
    by (simp add: abc_step [where env = quotaEnv and n = 1, OF tr1 env1]
          pageStep_translate_fails [where env = quotaEnv and n = 2, OF img content tt2]
          savedTexts_savePage abc_merge msgAiFailure_nonempty)
       (simp add: emptyState_def of_ascii_def savedTexts_def store_get_def)
  have c: "translateEconomic (Some (apiKeyInput ?cfg)) (envApiKey ?cfg)
      (env_gemini (quotaEnv 2)) [of_ascii ''a'', of_ascii ''b'', of_ascii ''c'']
     = Inl (msgAiFailure (of_ascii ''quota''))"
    using fails by (simp only: abc_texts)
  let ?cfgF = "exampleConfig False"
  let ?reqF = "exampleRequest 1 2"
  let ?envF = "\<lambda>n::int. abcPage EmptyText ResponseNotOk"
  let ?finalF = "startTranslation ?cfgF ?reqF ?envF emptyState"
  have free: "\<not> useAI ?cfgF" by (simp add: exampleConfig_def)
  have startedF: "pdfLoaded ?reqF" "activeProjectId ?reqF = Some ?pid" "?pid \<noteq> []"
    "useAI ?cfgF \<longrightarrow> hasStoredKey ?reqF" "rangeStart ?reqF = Some 1" "rangeEnd ?reqF = Some 2"
    by (simp_all add: exampleRequest_def of_ascii_def)
  have fineF: "\<forall>m \<in> {max 1 1..min (req_numPages ?reqF) 2}.
      (\<exists>img. env_image (?envF m) = Inr img) \<and> (\<exists>c. env_content (?envF m) = Inr c)
      \<and> env_save (?envF m) = None"
    by (simp add: abcPage_def)
  note policyF = translation_failure_policy [where cfg = ?cfgF and req = ?reqF and env = ?envF
      and st = emptyState, OF startedF, THEN conjunct2]
  from policyF free fineF have "alerts ?finalF = alerts emptyState"
    by blast
  then have aF: "alerts ?finalF = []"
    by (simp add: emptyState_def)
  have trF: "translateTexts ?cfgF (abcPage EmptyText ResponseNotOk)
      [of_ascii ''a'', of_ascii ''b'', of_ascii ''c'']
      = Inr [of_ascii ''a'', of_ascii ''b'', of_ascii ''c'']"
    by (simp add: translateTexts_def exampleConfig_def abcPage_def translateFree_def)
  have runF: "?finalF = passLoop ?cfgF ?pid ?envF [1, 2] emptyState"
    by (simp add: startTranslation_def exampleRequest_def exampleConfig_def of_ascii_def upto_rec1)
  have bF: "savedTexts ?pid 1 ?finalF = Some [of_ascii ''a'', of_ascii ''b'', of_ascii ''c'']
     \<and> savedTexts ?pid 2 ?finalF = Some [of_ascii ''a'', of_ascii ''b'', of_ascii ''c'']"
    unfolding runF
    by (simp add: abc_step [OF trF] savedTexts_savePage abc_merge abcPage_def of_ascii_def)
  have cF: "env_free (abcPage EmptyText ResponseNotOk) = ResponseNotOk"
    by (simp add: abcPage_def)
  from ai c a b free cF aF bF show ?thesis by (intro conjI) simp_all
qed

end
